theory Spec2Isabelle
  imports Complex_Main "HOL-Library.Sublist"
begin

section \<open>Text: Python strings and the builtins the agents call\<close>

text \<open>
  A Python \<^verbatim>\<open>str\<close> is modelled as a \<^typ>\<open>string\<close>: a list of characters, each read as
  the code point U+0000..U+00FF it numbers. The character classes below are those of
  CPython on that range: \<^verbatim>\<open>str.isspace\<close> (also the class of \<^verbatim>\<open>\s\<close> and of
  \<^verbatim>\<open>str.strip()\<close>), \<^verbatim>\<open>str.isdecimal\<close>, \<^verbatim>\<open>str.isdigit\<close> (which also accepts the
  superscripts U+00B2, U+00B3, U+00B9), the class of \<^verbatim>\<open>\w\<close>, and \<^verbatim>\<open>str.lower\<close>.
\<close>

definition dq :: char where
  "dq = CHR 0x22"

definition sq :: char where
  "sq = CHR 0x27"

definition py_isspace :: "char \<Rightarrow> bool" where
  "py_isspace c = ((of_char c :: nat) \<in> {9, 10, 11, 12, 13, 28, 29, 30, 31, 32, 133, 160})"

definition py_isdecimal :: "char \<Rightarrow> bool" where
  "py_isdecimal c = (48 \<le> (of_char c :: nat) \<and> (of_char c :: nat) \<le> 57)"

definition py_isdigit :: "char \<Rightarrow> bool" where
  "py_isdigit c = (py_isdecimal c \<or> (of_char c :: nat) \<in> {178, 179, 185})"

definition re_word :: "char \<Rightarrow> bool" where
  "re_word c =
     (let n = (of_char c :: nat) in
        (48 \<le> n \<and> n \<le> 57) \<or> (65 \<le> n \<and> n \<le> 90) \<or> n = 95 \<or> (97 \<le> n \<and> n \<le> 122)
        \<or> n \<in> {170, 178, 179, 181, 185, 186, 188, 189, 190}
        \<or> (192 \<le> n \<and> n \<le> 214) \<or> (216 \<le> n \<and> n \<le> 246) \<or> (248 \<le> n \<and> n \<le> 255))"

definition py_lower_char :: "char \<Rightarrow> char" where
  "py_lower_char c =
     (let n = (of_char c :: nat) in
        if (65 \<le> n \<and> n \<le> 90) \<or> (192 \<le> n \<and> n \<le> 222 \<and> n \<noteq> 215)
        then char_of (n + 32) else c)"

definition py_lower :: "string \<Rightarrow> string" where
  "py_lower s = map py_lower_char s"

text \<open>\<^verbatim>\<open>s.strip()\<close> and \<^verbatim>\<open>s.strip(chars)\<close>: every leading and every trailing character
  of the class is removed.\<close>

definition strip_where :: "(char \<Rightarrow> bool) \<Rightarrow> string \<Rightarrow> string" where
  "strip_where P s = rev (dropWhile P (rev (dropWhile P s)))"

definition py_strip :: "string \<Rightarrow> string" where
  "py_strip s = strip_where py_isspace s"

definition py_strip_chars :: "string \<Rightarrow> string \<Rightarrow> string" where
  "py_strip_chars chars s = strip_where (\<lambda>c. c \<in> set chars) s"

text \<open>\<^verbatim>\<open>sub in s\<close>.\<close>

fun py_contains :: "string \<Rightarrow> string \<Rightarrow> bool" where
  "py_contains sub [] = (sub = [])"
| "py_contains sub (c # cs) = (prefix sub (c # cs) \<or> py_contains sub cs)"

text \<open>\<^verbatim>\<open>s.split(sep)\<close> for a one-character separator, \<^verbatim>\<open>s.split(sep, 1)\<close> for a string
  that contains the separator, and \<^verbatim>\<open>s.replace(old, '', 1)\<close> for a one-character
  \<^verbatim>\<open>old\<close>.\<close>

fun py_split :: "char \<Rightarrow> string \<Rightarrow> string list" where
  "py_split sep [] = [[]]"
| "py_split sep (c # cs) =
     (if c = sep then [] # py_split sep cs
      else (case py_split sep cs of p # ps \<Rightarrow> (c # p) # ps | [] \<Rightarrow> [[c]]))"

definition py_split1 :: "char \<Rightarrow> string \<Rightarrow> string \<times> string" where
  "py_split1 sep s = (takeWhile (\<lambda>c. c \<noteq> sep) s, drop 1 (dropWhile (\<lambda>c. c \<noteq> sep) s))"

definition py_remove1 :: "char \<Rightarrow> string \<Rightarrow> string" where
  "py_remove1 old s = takeWhile (\<lambda>c. c \<noteq> old) s @ drop 1 (dropWhile (\<lambda>c. c \<noteq> old) s)"

text \<open>\<^verbatim>\<open>str(n)\<close> for a natural number, as the f-string \<^verbatim>\<open>f"call_{len(tool_calls)}"\<close>
  renders it.\<close>

function str_nat :: "nat \<Rightarrow> string" where
  "str_nat n = (if n < 10 then [char_of (48 + n)] else str_nat (n div 10) @ [char_of (48 + n mod 10)])"
  by pat_completeness auto
termination
  by (relation "measure (\<lambda>n. n)") auto

declare str_nat.simps [simp del]

subsection \<open>The builtins \<^verbatim>\<open>float\<close> and \<^verbatim>\<open>int\<close> on strings\<close>

text \<open>
  A float is the exact value of its decimal literal, an infinity or a NaN. Rounding to the
  nearest binary64, overflow to an infinity and the sign of zero are not modelled; the
  literals of the examples (\<^verbatim>\<open>5\<close>, \<^verbatim>\<open>3\<close>) are exact.

  \<^verbatim>\<open>float(s)\<close> follows CPython: Unicode whitespace becomes a blank and any other
  character above U+007F is rejected; an underscore is accepted only between two digits;
  leading and trailing C whitespace is dropped; then an optional sign and either a decimal
  number with an optional exponent, or \<^verbatim>\<open>inf\<close>, \<^verbatim>\<open>infinity\<close>, \<^verbatim>\<open>nan\<close> in any case.
  \<^term>\<open>None\<close> is \<^verbatim>\<open>ValueError\<close>.
\<close>

datatype pyfloat = Fin rat | FInf bool | FNaN

definition to_ascii_space :: "char \<Rightarrow> char" where
  "to_ascii_space c = (if (of_char c :: nat) \<in> {133, 160} then CHR '' '' else c)"

definition c_isspace :: "char \<Rightarrow> bool" where
  "c_isspace c = ((of_char c :: nat) \<in> {9, 10, 11, 12, 13, 32})"

fun underscores_ok :: "char \<Rightarrow> string \<Rightarrow> bool" where
  "underscores_ok prev [] = (prev \<noteq> CHR ''_'')"
| "underscores_ok prev (c # cs) =
     ((if c = CHR ''_'' then py_isdecimal prev
       else if prev = CHR ''_'' then py_isdecimal c else True)
      \<and> underscores_ok c cs)"

definition dec_val :: "string \<Rightarrow> nat" where
  "dec_val ds = foldl (\<lambda>n c. 10 * n + ((of_char c :: nat) - 48)) 0 ds"

definition take_sign :: "string \<Rightarrow> bool \<times> string" where
  "take_sign s =
     (case s of
        c # cs \<Rightarrow> if c = CHR ''-'' then (True, cs) else if c = CHR ''+'' then (False, cs) else (False, s)
      | [] \<Rightarrow> (False, s))"

definition parse_exponent :: "string \<Rightarrow> int option" where
  "parse_exponent s =
     (case s of
        [] \<Rightarrow> Some 0
      | c # cs \<Rightarrow>
          if c = CHR ''e'' \<or> c = CHR ''E'' then
            (let (neg, ds) = take_sign cs in
               if ds \<noteq> [] \<and> list_all py_isdecimal ds
               then Some (if neg then - int (dec_val ds) else int (dec_val ds))
               else None)
          else None)"

definition scale10 :: "nat \<Rightarrow> int \<Rightarrow> rat" where
  "scale10 m e = (if 0 \<le> e then of_nat m * 10 ^ nat e else of_nat m / 10 ^ nat (- e))"

definition parse_decimal :: "string \<Rightarrow> rat option" where
  "parse_decimal s =
     (let ip = takeWhile py_isdecimal s;
          r1 = dropWhile py_isdecimal s;
          fp = (case r1 of c # cs \<Rightarrow> if c = CHR ''.'' then takeWhile py_isdecimal cs else [] | [] \<Rightarrow> []);
          r2 = (case r1 of c # cs \<Rightarrow> if c = CHR ''.'' then dropWhile py_isdecimal cs else r1 | [] \<Rightarrow> [])
      in if ip = [] \<and> fp = [] then None
         else (case parse_exponent r2 of
                 None \<Rightarrow> None
               | Some e \<Rightarrow> Some (scale10 (dec_val (ip @ fp)) (e - int (length fp)))))"

definition parse_inf_or_nan :: "bool \<Rightarrow> string \<Rightarrow> pyfloat option" where
  "parse_inf_or_nan neg s =
     (if py_lower s = ''inf'' \<or> py_lower s = ''infinity'' then Some (FInf neg)
      else if py_lower s = ''nan'' then Some FNaN
      else None)"

definition py_float :: "string \<Rightarrow> pyfloat option" where
  "py_float s =
     (let t = map to_ascii_space s in
        if list_ex (\<lambda>c. 127 < (of_char c :: nat)) t then None
        else if CHR ''_'' \<in> set t \<and> \<not> underscores_ok (CHR 0x00) t then None
        else
          (let u = strip_where c_isspace (filter (\<lambda>c. c \<noteq> CHR ''_'') t);
               (neg, body) = take_sign u
           in case parse_decimal body of
                Some r \<Rightarrow> Some (Fin (if neg then - r else r))
              | None \<Rightarrow> parse_inf_or_nan neg body))"

text \<open>\<^verbatim>\<open>int(s)\<close> in base ten: the same handling of whitespace and underscores, an
  optional sign, then decimal digits only.\<close>

definition py_int :: "string \<Rightarrow> int option" where
  "py_int s =
     (let t = map to_ascii_space s in
        if list_ex (\<lambda>c. 127 < (of_char c :: nat)) t then None
        else
          (let (neg, body) = take_sign (strip_where c_isspace t);
               ds = filter (\<lambda>c. c \<noteq> CHR ''_'') body
           in if ds \<noteq> [] \<and> list_all py_isdecimal ds \<and> underscores_ok (CHR 0x00) body
              then Some (if neg then - int (dec_val ds) else int (dec_val ds))
              else None))"

section \<open>The directive parser\<close>

subsection \<open>The two regular expressions\<close>

text \<open>
  \<^verbatim>\<open>pattern = r"TOOL_CALL:\s*(\w+)\((.*?)\)\s*TOOL_CALL_END"\<close>, matched with
  \<^verbatim>\<open>re.DOTALL\<close> by \<^verbatim>\<open>re.finditer\<close>. The backtracking matcher has no choice on this
  pattern: a greedy \<^verbatim>\<open>\s*\<close> is followed by an item that no whitespace starts, and the
  greedy \<^verbatim>\<open>\w+\<close> by a parenthesis, so each takes its longest run; the lazy \<^verbatim>\<open>.*?\<close>
  stops at the first position where the rest of the pattern matches. A match at a
  position is therefore computed directly: \<^term>\<open>None\<close> when the pattern does not match
  there, else the two groups and the text after the match.
\<close>

definition TOOL_CALL :: string where
  "TOOL_CALL = ''TOOL_CALL:''"

definition TOOL_CALL_END :: string where
  "TOOL_CALL_END = ''TOOL_CALL_END''"

text \<open>\<^verbatim>\<open>\)\s*TOOL_CALL_END\<close> at the head of the text.\<close>

definition match_close :: "string \<Rightarrow> string option" where
  "match_close s =
     (case s of
        [] \<Rightarrow> None
      | c # r \<Rightarrow>
          if c = CHR '')'' \<and> prefix TOOL_CALL_END (dropWhile py_isspace r)
          then Some (drop (length TOOL_CALL_END) (dropWhile py_isspace r))
          else None)"

text \<open>\<^verbatim>\<open>(.*?)\)\s*TOOL_CALL_END\<close> at the head of the text: the group and the rest.\<close>

fun match_args :: "string \<Rightarrow> (string \<times> string) option" where
  "match_args [] = None"
| "match_args (c # r) =
     (case match_close (c # r) of
        Some rest \<Rightarrow> Some ([], rest)
      | None \<Rightarrow> map_option (\<lambda>(a, rest). (c # a, rest)) (match_args r))"

definition match_here :: "string \<Rightarrow> (string \<times> string \<times> string) option" where
  "match_here s =
     (if prefix TOOL_CALL s then
        (let s1 = dropWhile py_isspace (drop (length TOOL_CALL) s);
             tool_name = takeWhile re_word s1
         in if tool_name = [] then None
            else (case dropWhile re_word s1 of
                    [] \<Rightarrow> None
                  | c # s3 \<Rightarrow>
                      if c = CHR ''('' then
                        map_option (\<lambda>(args_str, rest). (tool_name, args_str, rest)) (match_args s3)
                      else None))
      else None)"

lemma match_close_shorter: "match_close s = Some rest \<Longrightarrow> length rest < length s"
  by (cases s)
     (auto simp: match_close_def less_Suc_eq_le
           intro: le_trans [OF diff_le_self length_dropWhile_le] split: if_splits)

lemma match_args_shorter: "match_args s = Some (a, rest) \<Longrightarrow> length rest < length s"
proof (induction s arbitrary: a)
  case Nil
  then show ?case by simp
next
  case (Cons c r)
  show ?case
  proof (cases "match_close (c # r)")
    case (Some rest')
    with Cons.prems show ?thesis
      using match_close_shorter [of "c # r" rest'] by simp
  next
    case None
    with Cons.prems obtain a' where "match_args r = Some (a', rest)"
      by auto
    then have "length rest < length r"
      by (rule Cons.IH)
    then show ?thesis by simp
  qed
qed

lemma match_here_shorter:
  assumes "match_here s = Some (n, a, rest)"
  shows "length rest < length s"
proof -
  from assms obtain c s3 where
    d: "dropWhile re_word (dropWhile py_isspace (drop (length TOOL_CALL) s)) = c # s3"
    and m: "match_args s3 = Some (a, rest)"
    by (auto simp: match_here_def Let_def split: if_splits list.splits)
  have "length (c # s3) \<le> length (dropWhile py_isspace (drop (length TOOL_CALL) s))"
    unfolding d [symmetric] by (rule length_dropWhile_le)
  also have "\<dots> \<le> length (drop (length TOOL_CALL) s)"
    by (rule length_dropWhile_le)
  also have "\<dots> \<le> length s"
    by simp
  finally have "length s3 < length s"
    by simp
  with match_args_shorter [OF m] show ?thesis
    by simp
qed

text \<open>\<^verbatim>\<open>re.finditer\<close>: the matches from left to right, each search starting where the
  previous match ended; the groups of each match.\<close>

function finditer :: "string \<Rightarrow> (string \<times> string) list" where
  "finditer [] = []"
| "finditer (c # r) =
     (case match_here (c # r) of
        Some (tool_name, args_str, rest) \<Rightarrow> (tool_name, args_str) # finditer rest
      | None \<Rightarrow> finditer r)"
  by pat_completeness auto
termination
  by (relation "measure length") (auto dest: match_here_shorter)

text \<open>
  \<^verbatim>\<open>re.sub(r"TOOL_CALL:.*?TOOL_CALL_END", "", content, flags=re.DOTALL)\<close>: at each
  position where \<^verbatim>\<open>TOOL_CALL:\<close> starts and a \<^verbatim>\<open>TOOL_CALL_END\<close> follows, the text up to
  the end of the first such \<^verbatim>\<open>TOOL_CALL_END\<close> is dropped and the scan goes on after it.
\<close>

fun find_end :: "string \<Rightarrow> string option" where
  "find_end [] = None"
| "find_end (c # r) =
     (if prefix TOOL_CALL_END (c # r) then Some (drop (length TOOL_CALL_END) (c # r))
      else find_end r)"

definition match_span :: "string \<Rightarrow> string option" where
  "match_span s = (if prefix TOOL_CALL s then find_end (drop (length TOOL_CALL) s) else None)"

lemma find_end_shorter: "find_end s = Some rest \<Longrightarrow> length rest < length s"
  by (induction s) (auto simp: TOOL_CALL_END_def split: if_splits)

lemma match_span_shorter: "match_span s = Some rest \<Longrightarrow> length rest < length s"
  by (auto simp: match_span_def split: if_splits dest!: find_end_shorter)

function re_sub :: "string \<Rightarrow> string" where
  "re_sub [] = []"
| "re_sub (c # r) =
     (case match_span (c # r) of
        Some rest \<Rightarrow> re_sub rest
      | None \<Rightarrow> c # re_sub r)"
  by pat_completeness auto
termination
  by (relation "measure length") (auto dest: match_span_shorter)

definition remove_tool_calls_from_content :: "string \<Rightarrow> string" where
  "remove_tool_calls_from_content content = py_strip (re_sub content)"

subsection \<open>Values, signatures and parsed calls\<close>

text \<open>
  The values an argument mapping holds. A parsed call is the dictionary
  \<^verbatim>\<open>{"id", "type": "function", "function": {"name", "arguments"}}\<close>; its
  \<^verbatim>\<open>arguments\<close> are written with \<^verbatim>\<open>json.dumps\<close> by the parser and read back with
  \<^verbatim>\<open>json.loads\<close> by \<^verbatim>\<open>process_tool_calls\<close>, so the model keeps the mapping itself. A
  \<^verbatim>\<open>dict\<close> is an association list in insertion order; assigning to a key that is
  present replaces its value in place.
\<close>

datatype pyval = PFloat pyfloat | PInt int | PBool bool | PStr string

datatype annotation = AFloat | AInt | ABool | AStr

datatype py_error = ValueError | TypeError

record tool_call =
  call_id :: string
  call_name :: string
  arguments :: "(string \<times> pyval) list"

fun dict_set :: "('k \<times> 'v) list \<Rightarrow> 'k \<Rightarrow> 'v \<Rightarrow> ('k \<times> 'v) list" where
  "dict_set [] k v = [(k, v)]"
| "dict_set ((k', v') # d) k v = (if k' = k then (k, v) # d else (k', v') # dict_set d k v)"

text \<open>\<^verbatim>\<open>tool_functions = {"calculator": calculator}\<close>, with the parameters that
  \<^verbatim>\<open>inspect.signature\<close> reads off
  \<^verbatim>\<open>def calculator(a: float, b: float, operator: str) -> str\<close>.\<close>

definition calculator_sig :: "(string \<times> annotation) list" where
  "calculator_sig = [(''a'', AFloat), (''b'', AFloat), (''operator'', AStr)]"

definition tool_functions :: "(string \<times> (string \<times> annotation) list) list" where
  "tool_functions = [(''calculator'', calculator_sig)]"

subsection \<open>The positional parser (custom_function_calling.py)\<close>

text \<open>The loop over \<^verbatim>\<open>args_str\<close> with its state \<^verbatim>\<open>arg_parts\<close>, \<^verbatim>\<open>current_part\<close>,
  \<^verbatim>\<open>in_quotes\<close>, and the append of the last part after it.\<close>

fun split_loop :: "string \<Rightarrow> string list \<Rightarrow> string \<Rightarrow> bool \<Rightarrow> string list \<times> string" where
  "split_loop [] arg_parts current_part in_quotes = (arg_parts, current_part)"
| "split_loop (c # cs) arg_parts current_part in_quotes =
     (if c = dq \<or> c = sq then split_loop cs arg_parts (current_part @ [c]) (\<not> in_quotes)
      else if c = CHR '','' \<and> \<not> in_quotes then
        split_loop cs (arg_parts @ [py_strip current_part]) [] in_quotes
      else split_loop cs arg_parts (current_part @ [c]) in_quotes)"

definition split_args :: "string \<Rightarrow> string list" where
  "split_args args_str =
     (case split_loop args_str [] [] False of
        (arg_parts, current_part) \<Rightarrow>
          if py_strip current_part \<noteq> [] then arg_parts @ [py_strip current_part] else arg_parts)"

text \<open>\<^verbatim>\<open>arg_part.strip('"\'')\<close>, then the conversion chosen by the annotation; a
  \<^verbatim>\<open>ValueError\<close> keeps the string.\<close>

definition strip_quotes :: "string \<Rightarrow> string" where
  "strip_quotes arg_part = py_strip_chars [dq, sq] arg_part"

definition coerce :: "annotation \<Rightarrow> string \<Rightarrow> pyval" where
  "coerce param_type arg_part =
     (let arg_value = strip_quotes arg_part in
        case param_type of
          AFloat \<Rightarrow> (case py_float arg_value of Some f \<Rightarrow> PFloat f | None \<Rightarrow> PStr arg_value)
        | AInt \<Rightarrow> (case py_int arg_value of Some i \<Rightarrow> PInt i | None \<Rightarrow> PStr arg_value)
        | ABool \<Rightarrow> PBool (py_lower arg_value \<in> {''true'', ''1'', ''yes''})
        | AStr \<Rightarrow> PStr arg_value)"

fun bind_args ::
  "(string \<times> annotation) list \<Rightarrow> string list \<Rightarrow> (string \<times> pyval) list \<Rightarrow> (string \<times> pyval) list" where
  "bind_args ((param_name, param_type) # params) (arg_part # arg_parts) args =
     bind_args params arg_parts (dict_set args param_name (coerce param_type arg_part))"
| "bind_args params arg_parts args = args"

definition parse_args :: "string \<Rightarrow> string \<Rightarrow> (string \<times> pyval) list" where
  "parse_args tool_name args_str =
     (if py_strip args_str \<noteq> [] then
        (case map_of tool_functions tool_name of
           Some params \<Rightarrow> bind_args params (split_args args_str) []
         | None \<Rightarrow> [])
      else [])"

fun parse_loop :: "(string \<times> string) list \<Rightarrow> tool_call list \<Rightarrow> tool_call list" where
  "parse_loop [] tool_calls = tool_calls"
| "parse_loop ((tool_name, args_str) # matches) tool_calls =
     parse_loop matches
       (tool_calls @
        [\<lparr>call_id = ''call_'' @ str_nat (length tool_calls), call_name = tool_name,
          arguments = parse_args tool_name args_str\<rparr>])"

definition parse_tool_calls :: "string \<Rightarrow> tool_call list" where
  "parse_tool_calls content = parse_loop (finditer content) []"

subsection \<open>The keyed parser (openai_function_calling_example_step2.py)\<close>

text \<open>\<^verbatim>\<open>value.replace('.', '', 1).isdigit()\<close> guards an unprotected \<^verbatim>\<open>float(value)\<close>:
  its \<^verbatim>\<open>ValueError\<close> leaves the parser.\<close>

definition isdigit_str :: "string \<Rightarrow> bool" where
  "isdigit_str s = (s \<noteq> [] \<and> list_all py_isdigit s)"

definition coerce_keyed :: "string \<Rightarrow> py_error + pyval" where
  "coerce_keyed v =
     (if py_lower v = ''true'' then Inr (PBool True)
      else if py_lower v = ''false'' then Inr (PBool False)
      else if isdigit_str (py_remove1 (CHR ''.'') v) then
        (case py_float v of Some f \<Rightarrow> Inr (PFloat f) | None \<Rightarrow> Inl ValueError)
      else Inr (PStr v))"

fun bind_pairs :: "string list \<Rightarrow> (string \<times> pyval) list \<Rightarrow> py_error + (string \<times> pyval) list" where
  "bind_pairs [] args = Inr args"
| "bind_pairs (pair # arg_pairs) args =
     (if CHR ''='' \<in> set pair then
        (case py_split1 (CHR ''='') pair of
           (key, v) \<Rightarrow>
             (case coerce_keyed (py_strip v) of
                Inl e \<Rightarrow> Inl e
              | Inr x \<Rightarrow> bind_pairs arg_pairs (dict_set args (py_strip key) x)))
      else bind_pairs arg_pairs args)"

text \<open>\<^verbatim>\<open>arg_pairs = [pair.strip() for pair in args_str.split(',')]\<close>.\<close>

definition split_pairs :: "string \<Rightarrow> string list" where
  "split_pairs args_str = map py_strip (py_split (CHR '','') args_str)"

definition parse_args_keyed :: "string \<Rightarrow> py_error + (string \<times> pyval) list" where
  "parse_args_keyed args_str =
     (if py_strip args_str \<noteq> [] then bind_pairs (split_pairs args_str) [] else Inr [])"

fun parse_loop_keyed :: "(string \<times> string) list \<Rightarrow> tool_call list \<Rightarrow> py_error + tool_call list" where
  "parse_loop_keyed [] tool_calls = Inr tool_calls"
| "parse_loop_keyed ((tool_name, args_str) # matches) tool_calls =
     (case parse_args_keyed args_str of
        Inl e \<Rightarrow> Inl e
      | Inr args \<Rightarrow>
          parse_loop_keyed matches
            (tool_calls @
             [\<lparr>call_id = ''call_'' @ str_nat (length tool_calls), call_name = tool_name,
               arguments = args\<rparr>]))"

definition parse_tool_calls_keyed :: "string \<Rightarrow> py_error + tool_call list" where
  "parse_tool_calls_keyed content = parse_loop_keyed (finditer content) []"

subsection \<open>The tokenization the specification describes\<close>

text \<open>
  The specification's words: the argument list is split on top-level commas, a comma being
  top-level when it is not inside a quoted span, and every quote character, single or
  double, opens or closes a span. \<^term>\<open>top_level_split False\<close> cuts a text at exactly those
  commas; the flag tells whether the text starts inside a span.
\<close>

definition is_quote :: "char \<Rightarrow> bool" where
  "is_quote c = (c = dq \<or> c = sq)"

fun top_level_split :: "bool \<Rightarrow> string \<Rightarrow> string list" where
  "top_level_split q [] = [[]]"
| "top_level_split q (c # cs) =
     (if c = CHR '','' \<and> \<not> q then [] # top_level_split q cs
      else (case top_level_split (if is_quote c then \<not> q else q) cs of
              p # ps \<Rightarrow> (c # p) # ps
            | [] \<Rightarrow> [[c]]))"

fun has_top_level_comma :: "bool \<Rightarrow> string \<Rightarrow> bool" where
  "has_top_level_comma q [] = False"
| "has_top_level_comma q (c # cs) =
     ((c = CHR '','' \<and> \<not> q) \<or> has_top_level_comma (if is_quote c then \<not> q else q) cs)"

definition quote_count :: "string \<Rightarrow> nat" where
  "quote_count p = length (filter is_quote p)"

fun join_commas :: "string list \<Rightarrow> string" where
  "join_commas [] = []"
| "join_commas [p] = p"
| "join_commas (p # ps) = p @ CHR '','' # join_commas ps"

subsection \<open>The spans the specification describes\<close>

text \<open>
  The specification's words for what is removed: a span runs from a marker
  \<^verbatim>\<open>TOOL_CALL:\<close> to a \<^verbatim>\<open>TOOL_CALL_END\<close> that follows it. \<^term>\<open>has_span\<close> tells whether a
  text holds a span. \<^term>\<open>first_span\<close> says that the text is \<^verbatim>\<open>pre\<close>, the marker,
  \<^verbatim>\<open>mid\<close>, the end marker and \<^verbatim>\<open>rest\<close>, where no marker starts inside \<^verbatim>\<open>pre\<close> and the end
  marker is the first one after the marker: the leftmost span, closed as early as it can
  be.
\<close>

fun has_span :: "string \<Rightarrow> bool" where
  "has_span [] = False"
| "has_span (c # r) =
     ((prefix TOOL_CALL (c # r) \<and> py_contains TOOL_CALL_END (drop (length TOOL_CALL) (c # r)))
      \<or> has_span r)"

definition first_span :: "string \<Rightarrow> string \<Rightarrow> string \<Rightarrow> string \<Rightarrow> bool" where
  "first_span s pre mid rest =
     (s = pre @ TOOL_CALL @ mid @ TOOL_CALL_END @ rest \<and>
      list_all (\<lambda>k. \<not> prefix TOOL_CALL (drop k s)) [0..<length pre] \<and>
      list_all (\<lambda>j. \<not> prefix TOOL_CALL_END (drop j (mid @ TOOL_CALL_END @ rest)))
        [0..<length mid])"

section \<open>The tool and its dispatch\<close>

text \<open>
  Binary64 arithmetic, the text of a float and the text of an exception belong to the
  interpreter, not to the repository: the calculator takes them as a parameter.
\<close>

record interp =
  float_arith :: "char \<Rightarrow> pyfloat \<Rightarrow> pyfloat \<Rightarrow> pyfloat"
  float_str :: "pyfloat \<Rightarrow> string"
  exc_str :: "char \<Rightarrow> pyval \<Rightarrow> pyval \<Rightarrow> string"

definition str_int :: "int \<Rightarrow> string" where
  "str_int i = (if i < 0 then CHR ''-'' # str_nat (nat (- i)) else str_nat (nat i))"

fun py_str :: "interp \<Rightarrow> pyval \<Rightarrow> string" where
  "py_str rt (PStr s) = s"
| "py_str rt (PFloat f) = float_str rt f"
| "py_str rt (PInt i) = str_int i"
| "py_str rt (PBool b) = (if b then ''True'' else ''False'')"

text \<open>\<^verbatim>\<open>b == 0\<close>.\<close>

fun py_eq_zero :: "pyval \<Rightarrow> bool" where
  "py_eq_zero (PFloat (Fin r)) = (r = 0)"
| "py_eq_zero (PFloat f) = False"
| "py_eq_zero (PInt i) = (i = 0)"
| "py_eq_zero (PBool b) = (\<not> b)"
| "py_eq_zero (PStr s) = False"

fun as_int :: "pyval \<Rightarrow> int option" where
  "as_int (PInt i) = Some i"
| "as_int (PBool b) = Some (if b then 1 else 0)"
| "as_int v = None"

fun as_float :: "pyval \<Rightarrow> pyfloat option" where
  "as_float (PFloat f) = Some f"
| "as_float (PStr s) = None"
| "as_float v = map_option (\<lambda>i. Fin (of_int i)) (as_int v)"

text \<open>\<^verbatim>\<open>a + b\<close>, \<^verbatim>\<open>a - b\<close>, \<^verbatim>\<open>a * b\<close>, \<^verbatim>\<open>a / b\<close> on the values above: numbers by
  the numeric tower (\<^verbatim>\<open>bool\<close> is an \<^verbatim>\<open>int\<close>), \<^verbatim>\<open>str + str\<close>, a \<^verbatim>\<open>str\<close> repeated by an
  \<^verbatim>\<open>int\<close>. \<^term>\<open>Inl\<close> is the exception the operation raises, by the text \<^verbatim>\<open>str(e)\<close>.
  Not modelled: the \<^verbatim>\<open>OverflowError\<close> of an integer, or of a quotient of integers, beyond
  the range of a float, which the tool would catch and return as an error string. The
  two parsers bind floats, booleans and strings only; an integer argument can reach the
  tool through the structured calls of the Ollama agent alone.\<close>

definition py_arith :: "interp \<Rightarrow> char \<Rightarrow> pyval \<Rightarrow> pyval \<Rightarrow> string + pyval" where
  "py_arith rt opr a b =
     (case (as_int a, as_int b) of
        (Some i, Some j) \<Rightarrow>
          if opr = CHR ''+'' then Inr (PInt (i + j))
          else if opr = CHR ''-'' then Inr (PInt (i - j))
          else if opr = CHR ''*'' then Inr (PInt (i * j))
          else if j = 0 then Inl (exc_str rt opr a b)
          else Inr (PFloat (float_arith rt opr (Fin (of_int i)) (Fin (of_int j))))
      | _ \<Rightarrow>
          (case (as_float a, as_float b) of
             (Some x, Some y) \<Rightarrow>
               if opr = CHR ''/'' \<and> py_eq_zero b then Inl (exc_str rt opr a b)
               else Inr (PFloat (float_arith rt opr x y))
           | _ \<Rightarrow>
               (case (a, b) of
                  (PStr s, PStr t) \<Rightarrow>
                    if opr = CHR ''+'' then Inr (PStr (s @ t)) else Inl (exc_str rt opr a b)
                | (PStr s, _) \<Rightarrow>
                    (case as_int b of
                       Some n \<Rightarrow>
                         if opr = CHR ''*'' then Inr (PStr (concat (replicate (nat n) s)))
                         else Inl (exc_str rt opr a b)
                     | None \<Rightarrow> Inl (exc_str rt opr a b))
                | (_, PStr t) \<Rightarrow>
                    (case as_int a of
                       Some n \<Rightarrow>
                         if opr = CHR ''*'' then Inr (PStr (concat (replicate (nat n) t)))
                         else Inl (exc_str rt opr a b)
                     | None \<Rightarrow> Inl (exc_str rt opr a b))
                | _ \<Rightarrow> Inl (exc_str rt opr a b))))"

text \<open>\<^verbatim>\<open>return str(a + b)\<close> inside \<^verbatim>\<open>try: ... except Exception as e: return
  f'Error: {str(e)}'\<close>.\<close>

definition try_str :: "interp \<Rightarrow> string + pyval \<Rightarrow> string" where
  "try_str rt r = (case r of Inr v \<Rightarrow> py_str rt v | Inl msg \<Rightarrow> ''Error: '' @ msg)"

definition calculator :: "interp \<Rightarrow> pyval \<Rightarrow> pyval \<Rightarrow> pyval \<Rightarrow> string" where
  "calculator rt a b operator =
     (if operator = PStr ''+'' then try_str rt (py_arith rt (CHR ''+'') a b)
      else if operator = PStr ''-'' then try_str rt (py_arith rt (CHR ''-'') a b)
      else if operator = PStr ''*'' then try_str rt (py_arith rt (CHR ''*'') a b)
      else if operator = PStr ''/'' then
        (if py_eq_zero b then ''Error: Division by zero''
         else try_str rt (py_arith rt (CHR ''/'') a b))
      else ''Error: Invalid operator. Please use +, -, *, or /'')"

text \<open>
  \<^verbatim>\<open>tool_functions[function_name](**function_args)\<close>: the call binds the mapping to
  the parameters by keyword. A key that is no parameter, or a parameter without a key,
  is a \<^verbatim>\<open>TypeError\<close> raised by the call itself, outside the \<^verbatim>\<open>try\<close> of the tool.
\<close>

definition bind_kwargs :: "(string \<times> annotation) list \<Rightarrow> (string \<times> pyval) list \<Rightarrow> pyval list option" where
  "bind_kwargs params kwargs =
     (if list_all (\<lambda>k. k \<in> set (map fst params)) (map fst kwargs)
      then those (map (\<lambda>p. map_of kwargs (fst p)) params)
      else None)"

definition invoke :: "interp \<Rightarrow> string \<Rightarrow> (string \<times> pyval) list \<Rightarrow> py_error + string" where
  "invoke rt function_name function_args =
     (case bind_kwargs calculator_sig function_args of
        Some [a, b, operator] \<Rightarrow> Inr (calculator rt a b operator)
      | _ \<Rightarrow> Inl TypeError)"

record tool_result =
  result_id :: string
  result_name :: string
  result_content :: string

fun process_loop :: "interp \<Rightarrow> tool_call list \<Rightarrow> tool_result list \<Rightarrow> py_error + tool_result list" where
  "process_loop rt [] tool_results = Inr tool_results"
| "process_loop rt (tool_call # tool_calls) tool_results =
     (case map_of tool_functions (call_name tool_call) of
        Some params \<Rightarrow>
          (case invoke rt (call_name tool_call) (arguments tool_call) of
             Inl e \<Rightarrow> Inl e
           | Inr result \<Rightarrow>
               process_loop rt tool_calls
                 (tool_results @
                  [\<lparr>result_id = call_id tool_call, result_name = call_name tool_call,
                    result_content = result\<rparr>]))
      | None \<Rightarrow> process_loop rt tool_calls tool_results)"

definition process_tool_calls :: "interp \<Rightarrow> tool_call list \<Rightarrow> py_error + tool_result list" where
  "process_tool_calls rt tool_calls = process_loop rt tool_calls []"

section \<open>The orchestrator\<close>

text \<open>
  The agent object is a record of its mutable fields; \<^verbatim>\<open>max_messages\<close> is absent
  (\<^term>\<open>None\<close>) in custom_function_calling.py, whose \<^verbatim>\<open>handle_message\<close> never reads it.
  The completion provider is a function of the history it is sent. A turn yields what
  \<^verbatim>\<open>handle_message\<close> returned or the exception that left it, the agent as the turn
  left it, and the list of the histories sent to the provider, one per request.
\<close>

record message =
  role :: string
  content :: "string option"
  name :: "string option"
  tool_call_id :: "string option"
  tool_calls :: "tool_call list option"

record agent =
  messages :: "message list"
  message_count :: int
  max_messages :: "int option"

datatype outcome = Returned "string option" | Raised py_error

record turn =
  outcome :: outcome
  agent_after :: agent
  requests :: "message list list"

text \<open>\<^verbatim>\<open>if name:\<close> and \<^verbatim>\<open>if tool_call_id:\<close> set the key only for a non-empty string.\<close>

definition truthy :: "string option \<Rightarrow> string option" where
  "truthy x = (case x of None \<Rightarrow> None | Some s \<Rightarrow> if s = [] then None else Some s)"

definition add_message ::
  "agent \<Rightarrow> string \<Rightarrow> string option \<Rightarrow> string option \<Rightarrow> string option \<Rightarrow> agent" where
  "add_message self r c n i =
     self\<lparr>messages := messages self @
       [\<lparr>role = r, content = c, name = truthy n, tool_call_id = truthy i, tool_calls = None\<rparr>]\<rparr>"

definition append_assistant :: "agent \<Rightarrow> string \<Rightarrow> tool_call list \<Rightarrow> agent" where
  "append_assistant self clean_content calls =
     self\<lparr>messages := messages self @
       [\<lparr>role = ''assistant'', content = Some clean_content, name = None, tool_call_id = None,
         tool_calls = (if calls \<noteq> [] then Some calls else None)\<rparr>]\<rparr>"

definition add_tool_results :: "agent \<Rightarrow> tool_result list \<Rightarrow> agent" where
  "add_tool_results self tool_results =
     foldl (\<lambda>ag r. add_message ag ''tool'' (Some (result_content r)) (Some (result_name r))
                    (Some (result_id r))) self tool_results"

text \<open>\<^verbatim>\<open>x or ""\<close>.\<close>

definition or_empty :: "string option \<Rightarrow> string" where
  "or_empty x = (case x of None \<Rightarrow> [] | Some s \<Rightarrow> s)"

text \<open>The two checks that open \<^verbatim>\<open>handle_message\<close> in the step-2 and Ollama agents.\<close>

definition TERMINATE :: string where
  "TERMINATE = ''TERMINATE''"

definition limit_reached :: "agent \<Rightarrow> bool" where
  "limit_reached self =
     (case max_messages self of
        None \<Rightarrow> False
      | Some m \<Rightarrow> m \<noteq> 0 \<and> m \<le> message_count self)"

subsection \<open>custom_function_calling.py\<close>

definition handle_message ::
  "interp \<Rightarrow> (message list \<Rightarrow> string option) \<Rightarrow> agent \<Rightarrow> string \<Rightarrow> turn" where
  "handle_message rt client self user_input =
     (let self1 = add_message (self\<lparr>message_count := message_count self + 1\<rparr>) ''user''
                    (Some user_input) None None;
          content = or_empty (client (messages self1));
          calls = parse_tool_calls content;
          clean_content = remove_tool_calls_from_content content;
          self2 = append_assistant self1 clean_content calls
      in if calls \<noteq> [] then
           (case process_tool_calls rt calls of
              Inl e \<Rightarrow> \<lparr>outcome = Raised e, agent_after = self2, requests = [messages self1]\<rparr>
            | Inr tool_results \<Rightarrow>
                (let self3 = add_tool_results self2 tool_results;
                     final_content = client (messages self3)
                 in \<lparr>outcome = Returned final_content,
                     agent_after = add_message self3 ''assistant'' final_content None None,
                     requests = [messages self1, messages self3]\<rparr>))
         else \<lparr>outcome = Returned (Some clean_content), agent_after = self2,
                requests = [messages self1]\<rparr>)"

subsection \<open>openai_function_calling_example_step2.py\<close>

definition handle_message_step2 ::
  "interp \<Rightarrow> (message list \<Rightarrow> string option) \<Rightarrow> agent \<Rightarrow> string \<Rightarrow> turn" where
  "handle_message_step2 rt client self user_input =
     (if py_contains TERMINATE user_input then
        \<lparr>outcome = Returned None, agent_after = self, requests = []\<rparr>
      else if limit_reached self then
        \<lparr>outcome = Returned None, agent_after = self, requests = []\<rparr>
      else
        (let self1 = add_message (self\<lparr>message_count := message_count self + 1\<rparr>) ''user''
                       (Some user_input) None None;
             content = or_empty (client (messages self1))
         in case parse_tool_calls_keyed content of
              Inl e \<Rightarrow> \<lparr>outcome = Raised e, agent_after = self1, requests = [messages self1]\<rparr>
            | Inr calls \<Rightarrow>
                (let clean_content = remove_tool_calls_from_content content;
                     self2 = append_assistant self1 clean_content calls
                 in if calls \<noteq> [] then
                      (case process_tool_calls rt calls of
                         Inl e \<Rightarrow>
                           \<lparr>outcome = Raised e, agent_after = self2, requests = [messages self1]\<rparr>
                       | Inr tool_results \<Rightarrow>
                           (let self3 = add_tool_results self2 tool_results;
                                final_content = or_empty (client (messages self3))
                            in \<lparr>outcome = Returned (Some final_content),
                                agent_after =
                                  add_message self3 ''assistant'' (Some final_content) None None,
                                requests = [messages self1, messages self3]\<rparr>))
                    else \<lparr>outcome = Returned (Some clean_content), agent_after = self2,
                           requests = [messages self1]\<rparr>)))"

subsection \<open>function_calling/ollama_function_calling_example.py\<close>

text \<open>
  The Ollama reply carries its tool calls in parsed form; the provider is called with the
  tool list (\<^term>\<open>True\<close>) for the first request and without it for the second. The branches on
  \<^verbatim>\<open>hasattr\<close> and \<^verbatim>\<open>isinstance\<close> only choose where the name, the arguments and the
  id of a call are read from: a call is the record of the three, an absent name or id
  being \<^term>\<open>None\<close>. Argument values are those of \<^typ>\<open>pyval\<close>.
\<close>

record ollama_call =
  fn_name :: "string option"
  fn_args :: "(string \<times> pyval) list"
  fn_id :: "string option"

record ollama_reply =
  reply_content :: "string option"
  reply_tool_calls :: "ollama_call list"

definition available_functions :: "(string \<times> (string \<times> annotation) list) list" where
  "available_functions = [(''calculator'', calculator_sig)]"

text \<open>The loop appends each tool message as soon as the tool has returned, so a call
  that raises leaves the messages of the calls before it in the history.\<close>

fun ollama_loop :: "interp \<Rightarrow> ollama_call list \<Rightarrow> agent \<Rightarrow> py_error option \<times> agent" where
  "ollama_loop rt [] self = (None, self)"
| "ollama_loop rt (tool_call # calls) self =
     (case fn_name tool_call of
        None \<Rightarrow> ollama_loop rt calls self
      | Some function_name \<Rightarrow>
          (case map_of available_functions function_name of
             None \<Rightarrow> ollama_loop rt calls self
           | Some params \<Rightarrow>
               (case invoke rt function_name (fn_args tool_call) of
                  Inl e \<Rightarrow> (Some e, self)
                | Inr result \<Rightarrow>
                    ollama_loop rt calls
                      (add_message self ''tool'' (Some result) (Some function_name)
                         (fn_id tool_call)))))"

definition handle_message_ollama ::
  "interp \<Rightarrow> (bool \<Rightarrow> message list \<Rightarrow> ollama_reply) \<Rightarrow> agent \<Rightarrow> string \<Rightarrow> turn" where
  "handle_message_ollama rt chat self user_input =
     (if py_contains TERMINATE user_input then
        \<lparr>outcome = Returned None, agent_after = self, requests = []\<rparr>
      else if limit_reached self then
        \<lparr>outcome = Returned None, agent_after = self, requests = []\<rparr>
      else
        (let self1 = add_message (self\<lparr>message_count := message_count self + 1\<rparr>) ''user''
                       (Some user_input) None None;
             response = chat True (messages self1);
             content = or_empty (reply_content response);
             self2 = append_assistant self1 content []
         in if reply_tool_calls response \<noteq> [] then
              (case ollama_loop rt (reply_tool_calls response) self2 of
                 (Some e, self3) \<Rightarrow>
                   \<lparr>outcome = Raised e, agent_after = self3, requests = [messages self1]\<rparr>
               | (None, self3) \<Rightarrow>
                   (let final_content = or_empty (reply_content (chat False (messages self3)))
                    in \<lparr>outcome = Returned (Some final_content),
                        agent_after =
                          add_message self3 ''assistant'' (Some final_content) None None,
                        requests = [messages self1, messages self3]\<rparr>))
            else \<lparr>outcome = Returned (Some content), agent_after = self2,
                   requests = [messages self1]\<rparr>))"

section \<open>Notions the properties are stated with\<close>

text \<open>A tool name is registered when \<^verbatim>\<open>function_name in tool_functions\<close>; the keys of a
  mapping bind when they are exactly the parameters of the calculator.\<close>

definition registered :: "string \<Rightarrow> bool" where
  "registered function_name = (map_of tool_functions function_name \<noteq> None)"

definition binds :: "(string \<times> pyval) list \<Rightarrow> bool" where
  "binds function_args = (set (map fst function_args) = {''a'', ''b'', ''operator''})"

text \<open>The characters of a plain decimal number: the ten decimal digits and the point.\<close>

definition decimal_or_point :: "char \<Rightarrow> bool" where
  "decimal_or_point c = (py_isdecimal c \<or> c = CHR ''.'')"

text \<open>The content of the first reply of a turn: the provider's answer to the history with
  the user message appended.\<close>

definition first_reply :: "(message list \<Rightarrow> string option) \<Rightarrow> agent \<Rightarrow> string \<Rightarrow> string" where
  "first_reply client self user_input =
     or_empty (client (messages
       (add_message (self\<lparr>message_count := message_count self + 1\<rparr>) ''user''
          (Some user_input) None None)))"

section \<open>A session for the examples\<close>

text \<open>
  \<^verbatim>\<open>__init__\<close> starts the history with the system message and the count at zero. The
  examples run on an interpreter whose float arithmetic is exact on finite values.
\<close>

definition new_agent :: "string \<Rightarrow> int option \<Rightarrow> agent" where
  "new_agent system_message limit =
     add_message \<lparr>messages = [], message_count = 0, max_messages = limit\<rparr> ''system''
       (Some system_message) None None"

fun exact_arith :: "char \<Rightarrow> pyfloat \<Rightarrow> pyfloat \<Rightarrow> pyfloat" where
  "exact_arith opr (Fin x) (Fin y) =
     (if opr = CHR ''+'' then Fin (x + y)
      else if opr = CHR ''-'' then Fin (x - y)
      else if opr = CHR ''*'' then Fin (x * y)
      else Fin (x / y))"
| "exact_arith opr x y = FNaN"

definition example_interp :: interp where
  "example_interp =
     \<lparr>float_arith = exact_arith, float_str = (\<lambda>f. ''<float>''),
      exc_str = (\<lambda>opr a b. ''unsupported operand'')\<rparr>"

section \<open>Properties\<close>

subsection \<open>The positional example\<close>

text \<open>
  C3. The positional parser of custom_function_calling.py, on the text
  \<^verbatim>\<open>TOOL_CALL: calculator(5, 3, "+") TOOL_CALL_END\<close>, returns exactly one tool call: its
  id is \<^verbatim>\<open>call_0\<close>, its name \<^verbatim>\<open>calculator\<close>, and its arguments bind \<^verbatim>\<open>a\<close> to the
  float 5, \<^verbatim>\<open>b\<close> to the float 3 and \<^verbatim>\<open>operator\<close> to the string \<^verbatim>\<open>+\<close> without its
  quotes.
\<close>

theorem positional_example:
  \<open>parse_tool_calls ''TOOL_CALL: calculator(5, 3, "+") TOOL_CALL_END'' =
     [\<lparr>call_id = ''call_0'', call_name = ''calculator'',
       arguments = [(''a'', PFloat (Fin 5)), (''b'', PFloat (Fin 3)), (''operator'', PStr ''+'')]\<rparr>]\<close>
  by code_simp

subsection \<open>The matchers and their regular expressions\<close>

text \<open>
  The matcher of a directive agrees with its regular expression at a position: what it
  reports is the marker, whitespace, a non-empty run of word characters, the argument
  text in parentheses, whitespace and the end marker; the argument text is the shortest
  that the closing of the pattern can follow; and wherever the text has that shape the
  matcher reports a match. The same holds for the span that is removed.
\<close>

lemma match_close_shape:
  "match_close s = Some rest \<Longrightarrow>
     s = CHR '')'' # takeWhile py_isspace (tl s) @ TOOL_CALL_END @ rest"
proof -
  assume m: "match_close s = Some rest"
  then obtain r where s: "s = CHR '')'' # r"
    and p: "prefix TOOL_CALL_END (dropWhile py_isspace r)"
    and rest: "rest = drop (length TOOL_CALL_END) (dropWhile py_isspace r)"
    by (cases s) (auto simp: match_close_def split: if_splits)
  from p have "dropWhile py_isspace r = TOOL_CALL_END @ rest"
    unfolding rest by (metis append_eq_conv_conj prefixE)
  then have "r = takeWhile py_isspace r @ TOOL_CALL_END @ rest"
    by (metis takeWhile_dropWhile_id)
  then show ?thesis
    unfolding s by simp
qed

lemma match_args_shape:
  "match_args s = Some (a, rest) \<Longrightarrow>
     (\<exists>ws. s = a @ CHR '')'' # ws @ TOOL_CALL_END @ rest \<and> list_all py_isspace ws) \<and>
     (\<forall>k < length a. match_close (drop k s) = None)"
proof (induction s arbitrary: a)
  case Nil
  then show ?case by simp
next
  case (Cons c r)
  show ?case
  proof (cases "match_close (c # r)")
    case (Some rest')
    with Cons.prems have a: "a = []" and r: "rest' = rest"
      by simp_all
    have "list_all py_isspace (takeWhile py_isspace r)"
      by (simp add: list_all_iff) (meson set_takeWhileD)
    then show ?thesis
      using match_close_shape [OF Some] unfolding a r by auto
  next
    case None
    with Cons.prems obtain a' where a: "a = c # a'" and m: "match_args r = Some (a', rest)"
      by auto
    from Cons.IH [OF m] obtain ws where
      ws: "r = a' @ CHR '')'' # ws @ TOOL_CALL_END @ rest" "list_all py_isspace ws"
      and k: "\<forall>k < length a'. match_close (drop k r) = None"
      by blast
    have "match_close (drop k (c # r)) = None" if "k < length a" for k
    proof (cases k)
      case 0
      then show ?thesis using None by simp
    next
      case (Suc j)
      then show ?thesis using that k a by simp
    qed
    then show ?thesis
      using ws a by auto
  qed
qed

lemma word_not_space: "re_word c \<Longrightarrow> \<not> py_isspace c"
  by (auto simp: re_word_def py_isspace_def Let_def)

lemma match_here_shape:
  assumes "match_here s = Some (tool_name, args_str, rest)"
  shows "\<exists>ws1 ws2. s = TOOL_CALL @ ws1 @ tool_name @ CHR ''('' # args_str @ CHR '')'' # ws2 @
            TOOL_CALL_END @ rest \<and>
          list_all py_isspace ws1 \<and> tool_name \<noteq> [] \<and> list_all re_word tool_name \<and>
          list_all py_isspace ws2"
proof -
  let ?d = "drop (length TOOL_CALL) s"
  let ?s1 = "dropWhile py_isspace ?d"
  from assms have p: "prefix TOOL_CALL s" and n: "tool_name = takeWhile re_word ?s1"
    and ne: "tool_name \<noteq> []"
    by (auto simp: match_here_def Let_def split: if_splits list.splits)
  from assms obtain s3 where d: "dropWhile re_word ?s1 = CHR ''('' # s3"
    and m: "match_args s3 = Some (args_str, rest)"
    by (auto simp: match_here_def Let_def split: if_splits list.splits)
  from match_args_shape [OF m] obtain ws2 where
    s3: "s3 = args_str @ CHR '')'' # ws2 @ TOOL_CALL_END @ rest" and w2: "list_all py_isspace ws2"
    by blast
  have "s = TOOL_CALL @ ?d"
    using p by (metis append_eq_conv_conj prefixE)
  moreover have "?d = takeWhile py_isspace ?d @ ?s1"
    by simp
  moreover have "?s1 = tool_name @ CHR ''('' # s3"
    unfolding n d [symmetric] by simp
  ultimately have "s = TOOL_CALL @ takeWhile py_isspace ?d @ tool_name @ CHR ''('' # args_str @
      CHR '')'' # ws2 @ TOOL_CALL_END @ rest"
    unfolding s3 by metis
  moreover have "list_all py_isspace (takeWhile py_isspace ?d)"
    by (simp add: list_all_iff) (meson set_takeWhileD)
  moreover have "list_all re_word tool_name"
    unfolding n by (simp add: list_all_iff) (meson set_takeWhileD)
  ultimately show ?thesis
    using ne w2 by blast
qed

lemma match_close_complete:
  assumes "list_all py_isspace ws"
  shows "match_close (CHR '')'' # ws @ TOOL_CALL_END @ rest) = Some rest"
proof -
  have "\<not> py_isspace (CHR ''T'')"
    by (simp add: py_isspace_def)
  then have "dropWhile py_isspace (ws @ TOOL_CALL_END @ rest) = TOOL_CALL_END @ rest"
    using assms by (simp add: dropWhile_append list_all_iff TOOL_CALL_END_def)
  then show ?thesis
    by (simp add: match_close_def)
qed

lemma match_args_complete:
  assumes "list_all py_isspace ws"
  shows "match_args (a @ CHR '')'' # ws @ TOOL_CALL_END @ rest) \<noteq> None"
proof (induction a)
  case Nil
  then show ?case
    using match_close_complete [OF assms, of rest] by simp
next
  case (Cons c a)
  then show ?case
    by (cases "match_close (c # a @ CHR '')'' # ws @ TOOL_CALL_END @ rest)") auto
qed

lemma match_here_complete:
  assumes "list_all py_isspace ws1" "tool_name \<noteq> []" "list_all re_word tool_name"
    "list_all py_isspace ws2"
  shows "match_here (TOOL_CALL @ ws1 @ tool_name @ CHR ''('' # args_str @ CHR '')'' # ws2 @
            TOOL_CALL_END @ rest) \<noteq> None"
proof -
  let ?tail = "CHR ''('' # args_str @ CHR '')'' # ws2 @ TOOL_CALL_END @ rest"
  let ?s = "TOOL_CALL @ ws1 @ tool_name @ ?tail"
  have d: "drop (length TOOL_CALL) ?s = ws1 @ tool_name @ ?tail"
    by simp
  obtain c cs where tn: "tool_name = c # cs"
    using assms(2) by (cases tool_name) auto
  then have "\<not> py_isspace c"
    using assms(3) word_not_space by simp
  then have s1: "dropWhile py_isspace (ws1 @ tool_name @ ?tail) = tool_name @ ?tail"
    using assms(1) tn by (simp add: dropWhile_append list_all_iff)
  have nw: "\<not> re_word (CHR ''('')"
    by (simp add: re_word_def)
  have t: "takeWhile re_word (tool_name @ ?tail) = tool_name"
    using assms(3) nw by (simp add: takeWhile_append list_all_iff)
  have dw: "dropWhile re_word (tool_name @ ?tail) = ?tail"
    using assms(3) nw by (simp add: dropWhile_append list_all_iff)
  have "match_args (args_str @ CHR '')'' # ws2 @ TOOL_CALL_END @ rest) \<noteq> None"
    using assms(4) by (rule match_args_complete)
  then show ?thesis
    unfolding match_here_def d s1 Let_def t dw using assms(2) by auto
qed


lemma find_end_shape:
  "find_end s = Some rest \<Longrightarrow>
     \<exists>mid. s = mid @ TOOL_CALL_END @ rest \<and>
       (\<forall>k < length mid. \<not> prefix TOOL_CALL_END (drop k s))"
proof (induction s)
  case Nil
  then show ?case by simp
next
  case (Cons c r)
  show ?case
  proof (cases "prefix TOOL_CALL_END (c # r)")
    case True
    with Cons.prems have "rest = drop (length TOOL_CALL_END) (c # r)"
      by simp
    with True have "c # r = [] @ TOOL_CALL_END @ rest"
      by (metis append_Nil append_eq_conv_conj prefixE)
    then show ?thesis
      by (intro exI [of _ "[]"]) simp
  next
    case False
    with Cons.prems have "find_end r = Some rest"
      by simp
    from Cons.IH [OF this] obtain mid where
      mid: "r = mid @ TOOL_CALL_END @ rest"
      and k: "\<forall>k < length mid. \<not> prefix TOOL_CALL_END (drop k r)"
      by blast
    have "\<not> prefix TOOL_CALL_END (drop k (c # r))" if "k < length (c # mid)" for k
    proof (cases k)
      case 0
      then show ?thesis using False by simp
    next
      case (Suc j)
      then show ?thesis using that k by simp
    qed
    then show ?thesis
      using mid by (intro exI [of _ "c # mid"]) simp
  qed
qed

lemma find_end_complete: "find_end (mid @ TOOL_CALL_END @ rest) \<noteq> None"
proof (induction mid)
  case Nil
  then show ?case
    by (simp add: TOOL_CALL_END_def)
next
  case (Cons c mid)
  then show ?case by simp
qed

lemma match_span_shape:
  "match_span s = Some rest \<Longrightarrow> \<exists>mid. s = TOOL_CALL @ mid @ TOOL_CALL_END @ rest"
proof -
  assume m: "match_span s = Some rest"
  then have p: "prefix TOOL_CALL s" and f: "find_end (drop (length TOOL_CALL) s) = Some rest"
    by (auto simp: match_span_def split: if_splits)
  from find_end_shape [OF f] obtain mid where "drop (length TOOL_CALL) s = mid @ TOOL_CALL_END @ rest"
    by blast
  moreover have "s = TOOL_CALL @ drop (length TOOL_CALL) s"
    using p by (metis append_eq_conv_conj prefixE)
  ultimately show ?thesis
    by metis
qed

lemma match_span_complete: "match_span (TOOL_CALL @ mid @ TOOL_CALL_END @ rest) \<noteq> None"
  using find_end_complete [of mid rest] by (simp add: match_span_def)

subsection \<open>Facts about the string operations\<close>

lemma py_contains_sublist: "py_contains sub s = sublist sub s"
  by (induction s) (auto simp: sublist_Cons_right)

lemma strip_where_sublist: "sublist (strip_where P s) s"
proof -
  have "suffix (dropWhile P s) s"
    by (rule suffix_dropWhile)
  moreover have "prefix (strip_where P s) (dropWhile P s)"
    unfolding strip_where_def
    by (metis rev_rev_ident suffix_dropWhile suffix_to_prefix)
  ultimately show ?thesis
    using prefix_imp_sublist suffix_imp_sublist sublist_order.order.trans by blast
qed

lemma strip_where_length: "length (strip_where P s) \<le> length s"
  using strip_where_sublist [of P s] by (simp add: sublist_length_le)

lemma dropWhile_id: "xs = [] \<or> \<not> P (hd xs) \<Longrightarrow> dropWhile P xs = xs"
  by (cases xs) auto

lemma strip_prefix_hd:
  "rev (dropWhile P (rev t)) \<noteq> [] \<Longrightarrow> hd (rev (dropWhile P (rev t))) = hd t"
  by (metis Nil_is_rev_conv dropWhile_eq_Nil_conv dropWhile_last hd_rev last_rev)

lemma strip_where_ends:
  assumes "strip_where P s \<noteq> []"
  shows "\<not> P (hd (strip_where P s)) \<and> \<not> P (last (strip_where P s))"
proof -
  let ?t = "dropWhile P s"
  let ?u = "rev (dropWhile P (rev ?t))"
  have u: "?u \<noteq> []"
    using assms by (simp add: strip_where_def)
  have "?t \<noteq> []"
  proof
    assume e: "?t = []"
    have "?u = []"
      unfolding e by simp
    with u show False ..
  qed
  then have "\<not> P (hd ?t)"
    by (rule hd_dropWhile)
  moreover have "hd ?u = hd ?t"
    using u by (rule strip_prefix_hd)
  moreover have "dropWhile P (rev ?t) \<noteq> []"
    using u by simp
  then have "\<not> P (hd (dropWhile P (rev ?t)))"
    by (rule hd_dropWhile)
  moreover have "last ?u = hd (dropWhile P (rev ?t))"
    by (simp add: last_rev)
  ultimately show ?thesis
    by (simp add: strip_where_def)
qed

lemma strip_where_idem: "strip_where P (strip_where P s) = strip_where P s"
proof -
  let ?u = "strip_where P s"
  have a: "dropWhile P (rev ?u) = rev ?u"
    by (simp add: strip_where_def)
  have b: "dropWhile P ?u = ?u"
  proof (cases "?u = []")
    case True
    then show ?thesis by (metis dropWhile.simps(1))
  next
    case False
    then have "\<not> P (hd ?u)"
      using strip_where_ends by blast
    with False show ?thesis
      by (intro dropWhile_id) simp
  qed
  have "strip_where P ?u = rev (dropWhile P (rev (dropWhile P ?u)))"
    by (simp only: strip_where_def)
  also have "\<dots> = ?u"
    unfolding b a by simp
  finally show ?thesis .
qed

lemma strip_where_decomp:
  "s = takeWhile P s @ strip_where P s @ rev (takeWhile P (rev (dropWhile P s)))"
proof -
  let ?t = "dropWhile P s"
  have "rev (takeWhile P (rev ?t) @ dropWhile P (rev ?t)) = rev (rev ?t)"
    by (simp only: takeWhile_dropWhile_id)
  then have "rev (dropWhile P (rev ?t)) @ rev (takeWhile P (rev ?t)) = ?t"
    by (simp only: rev_append rev_rev_ident)
  then have "?t = strip_where P s @ rev (takeWhile P (rev ?t))"
    by (simp only: strip_where_def)
  moreover have "s = takeWhile P s @ ?t"
    by simp
  ultimately show ?thesis
    by simp
qed

lemma py_split_concat: "concat (py_split sep s) = filter (\<lambda>c. c \<noteq> sep) s"
  by (induction s) (auto split: list.splits)

lemma py_split_set: "p \<in> set (py_split sep s) \<Longrightarrow> set p \<subseteq> set s"
proof -
  assume "p \<in> set (py_split sep s)"
  then have "set p \<subseteq> set (concat (py_split sep s))"
    by auto
  then show ?thesis
    unfolding py_split_concat by auto
qed

subsection \<open>Text without a directive, and removing directives twice\<close>

lemma match_here_marker: "match_here s = Some m \<Longrightarrow> prefix TOOL_CALL s"
  by (auto simp: match_here_def split: if_splits)

lemma finditer_no_marker: "\<not> py_contains TOOL_CALL s \<Longrightarrow> finditer s = []"
proof (induction s)
  case Nil
  then show ?case by simp
next
  case (Cons c r)
  then have "match_here (c # r) = None"
    using match_here_marker [of "c # r"] by (cases "match_here (c # r)") auto
  with Cons show ?case by simp
qed

lemma re_sub_no_marker: "\<not> py_contains TOOL_CALL s \<Longrightarrow> re_sub s = s"
proof (induction s)
  case Nil
  then show ?case by simp
next
  case (Cons c r)
  then have "match_span (c # r) = None"
    by (simp add: match_span_def)
  with Cons show ?case by simp
qed

lemma re_sub_length: "re_sub s = s \<or> length (re_sub s) < length s"
proof (induction s rule: re_sub.induct)
  case 1
  then show ?case by simp
next
  case (2 c r)
  show ?case
  proof (cases "match_span (c # r)")
    case None
    with 2 show ?thesis by auto
  next
    case (Some rest)
    with 2 have "re_sub rest = rest \<or> length (re_sub rest) < length rest"
      by simp
    moreover have "length rest < length (c # r)"
      using Some by (rule match_span_shorter)
    ultimately show ?thesis
      using Some by auto
  qed
qed

lemma remove_idem_iff:
  "remove_tool_calls_from_content (remove_tool_calls_from_content x) =
     remove_tool_calls_from_content x
   \<longleftrightarrow> re_sub (remove_tool_calls_from_content x) = remove_tool_calls_from_content x"
proof -
  let ?y = "remove_tool_calls_from_content x"
  have y: "py_strip ?y = ?y"
    by (simp add: remove_tool_calls_from_content_def py_strip_def strip_where_idem)
  show ?thesis
  proof
    assume "re_sub ?y = ?y"
    then show "remove_tool_calls_from_content ?y = ?y"
      using y by (simp add: remove_tool_calls_from_content_def)
  next
    assume idem: "remove_tool_calls_from_content ?y = ?y"
    show "re_sub ?y = ?y"
    proof (rule ccontr)
      assume "re_sub ?y \<noteq> ?y"
      then have "length (re_sub ?y) < length ?y"
        using re_sub_length [of ?y] by simp
      moreover have "length (py_strip (re_sub ?y)) \<le> length (re_sub ?y)"
        by (simp add: py_strip_def strip_where_length)
      ultimately have "length (remove_tool_calls_from_content ?y) < length ?y"
        by (simp add: remove_tool_calls_from_content_def)
      with idem show False by simp
    qed
  qed
qed

lemma find_end_suffix: "find_end s = Some rest \<Longrightarrow> suffix rest s"
proof (induction s)
  case Nil
  then show ?case by simp
next
  case (Cons c r)
  show ?case
  proof (cases "prefix TOOL_CALL_END (c # r)")
    case True
    with Cons.prems have "rest = drop (length TOOL_CALL_END) (c # r)"
      by simp
    then show ?thesis
      by (simp only: suffix_drop)
  next
    case False
    with Cons.prems have "find_end r = Some rest"
      by simp
    then have "suffix rest r"
      by (rule Cons.IH)
    then show ?thesis
      by (rule suffix_ConsI)
  qed
qed

lemma match_span_suffix: "match_span s = Some rest \<Longrightarrow> suffix rest s"
proof -
  assume "match_span s = Some rest"
  then have "suffix rest (drop (length TOOL_CALL) s)"
    by (auto simp: match_span_def split: if_splits dest: find_end_suffix)
  then show ?thesis
    using suffix_drop suffix_order.trans by blast
qed

lemma re_sub_subseq: "subseq (re_sub s) s"
proof (induction s rule: re_sub.induct)
  case 1
  then show ?case by simp
next
  case (2 c r)
  show ?case
  proof (cases "match_span (c # r)")
    case None
    with 2 show ?thesis by simp
  next
    case (Some rest)
    with 2 have "subseq (re_sub rest) rest"
      by simp
    moreover have "subseq rest (c # r)"
      using match_span_suffix [OF Some] by (simp add: sublist_imp_subseq)
    ultimately have "subseq (re_sub rest) (c # r)"
      by (rule subseq_order.trans)
    then show ?thesis
      using Some by simp
  qed
qed

lemma remove_subseq: "subseq (remove_tool_calls_from_content x) x"
proof -
  have "subseq (py_strip (re_sub x)) (re_sub x)"
    unfolding py_strip_def using strip_where_sublist by (rule sublist_imp_subseq)
  then show ?thesis
    unfolding remove_tool_calls_from_content_def
    using re_sub_subseq [of x] by (rule subseq_order.trans)
qed

lemma no_marker_strip:
  "\<not> py_contains TOOL_CALL x \<Longrightarrow> \<not> py_contains TOOL_CALL (py_strip x)"
  unfolding py_contains_sublist py_strip_def
  using strip_where_sublist sublist_order.order.trans by blast

lemma has_span_shape:
  "has_span s = (\<exists>pre mid rest. s = pre @ TOOL_CALL @ mid @ TOOL_CALL_END @ rest)"
proof (induction s)
  case Nil
  then show ?case
    by (simp add: TOOL_CALL_def)
next
  case (Cons c r)
  show ?case
  proof
    assume "has_span (c # r)"
    then consider
      (here) "prefix TOOL_CALL (c # r)"
        "sublist TOOL_CALL_END (drop (length TOOL_CALL) (c # r))"
      | (later) "has_span r"
      by (auto simp: py_contains_sublist)
    then show "\<exists>pre mid rest. c # r = pre @ TOOL_CALL @ mid @ TOOL_CALL_END @ rest"
    proof cases
      case here
      from here(2) obtain mid rest where
        "drop (length TOOL_CALL) (c # r) = mid @ TOOL_CALL_END @ rest"
        by (auto simp: sublist_def)
      moreover have "c # r = TOOL_CALL @ drop (length TOOL_CALL) (c # r)"
        using here(1) by (metis append_eq_conv_conj prefixE)
      ultimately have "c # r = [] @ TOOL_CALL @ mid @ TOOL_CALL_END @ rest"
        by simp
      then show ?thesis
        by blast
    next
      case later
      with Cons.IH obtain pre mid rest where "r = pre @ TOOL_CALL @ mid @ TOOL_CALL_END @ rest"
        by blast
      then have "c # r = (c # pre) @ TOOL_CALL @ mid @ TOOL_CALL_END @ rest"
        by simp
      then show ?thesis
        by blast
    qed
  next
    assume "\<exists>pre mid rest. c # r = pre @ TOOL_CALL @ mid @ TOOL_CALL_END @ rest"
    then obtain pre mid rest where e: "c # r = pre @ TOOL_CALL @ mid @ TOOL_CALL_END @ rest"
      by blast
    show "has_span (c # r)"
    proof (cases pre)
      case Nil
      then have "prefix TOOL_CALL (c # r)"
        using e by simp
      moreover have "drop (length TOOL_CALL) (c # r) = mid @ TOOL_CALL_END @ rest"
        using e Nil by simp
      then have "sublist TOOL_CALL_END (drop (length TOOL_CALL) (c # r))"
        by (auto simp: sublist_def)
      ultimately show ?thesis
        by (simp add: py_contains_sublist)
    next
      case (Cons c' pre')
      then have "r = pre' @ TOOL_CALL @ mid @ TOOL_CALL_END @ rest"
        using e by simp
      then have "has_span r"
        using Cons.IH by blast
      then show ?thesis
        by simp
    qed
  qed
qed

lemma re_sub_unfold:
  "s \<noteq> [] \<Longrightarrow>
     re_sub s = (case match_span s of Some rest \<Rightarrow> re_sub rest | None \<Rightarrow> hd s # re_sub (tl s))"
  by (cases s) (auto split: option.splits)

lemma match_span_has_span: "match_span s \<noteq> None \<Longrightarrow> has_span s"
proof -
  assume "match_span s \<noteq> None"
  then obtain rest where "match_span s = Some rest"
    by auto
  from match_span_shape [OF this] obtain mid where "s = [] @ TOOL_CALL @ mid @ TOOL_CALL_END @ rest"
    by auto
  then show ?thesis
    unfolding has_span_shape by blast
qed

lemma re_sub_without_span: "\<not> has_span s \<Longrightarrow> re_sub s = s"
proof (induction s)
  case Nil
  then show ?case by simp
next
  case (Cons c r)
  then have "match_span (c # r) = None"
    using match_span_has_span [of "c # r"] by blast
  moreover have "\<not> has_span r"
    using Cons.prems by simp
  ultimately show ?case
    using Cons.IH by simp
qed

lemma re_sub_le: "length (re_sub s) \<le> length s"
  using re_sub_length [of s] by auto

lemma re_sub_with_span: "has_span s \<Longrightarrow> length (re_sub s) < length s"
proof (induction s)
  case Nil
  then show ?case by simp
next
  case (Cons c r)
  show ?case
  proof (cases "match_span (c # r)")
    case (Some rest)
    then have "length rest < length (c # r)"
      by (rule match_span_shorter)
    moreover have "length (re_sub rest) \<le> length rest"
      by (rule re_sub_le)
    ultimately show ?thesis
      using Some by simp
  next
    case None
    have "\<not> (prefix TOOL_CALL (c # r) \<and>
        py_contains TOOL_CALL_END (drop (length TOOL_CALL) (c # r)))"
    proof
      assume a: "prefix TOOL_CALL (c # r) \<and>
        py_contains TOOL_CALL_END (drop (length TOOL_CALL) (c # r))"
      then obtain mid rest where
        "drop (length TOOL_CALL) (c # r) = mid @ TOOL_CALL_END @ rest"
        by (auto simp: py_contains_sublist sublist_def)
      then have "find_end (drop (length TOOL_CALL) (c # r)) \<noteq> None"
        using find_end_complete [of mid rest] by simp
      then show False
        using None a by (simp add: match_span_def)
    qed
    then have "has_span r"
      using Cons.prems by auto
    then have "length (re_sub r) < length r"
      by (rule Cons.IH)
    then show ?thesis
      using None by simp
  qed
qed

lemma find_end_first:
  "list_all (\<lambda>j. \<not> prefix TOOL_CALL_END (drop j (mid @ TOOL_CALL_END @ rest))) [0..<length mid]
   \<Longrightarrow> find_end (mid @ TOOL_CALL_END @ rest) = Some rest"
proof (induction mid)
  case Nil
  then show ?case
    by (simp add: TOOL_CALL_END_def)
next
  case (Cons c mid)
  from Cons.prems have all: "\<forall>j < Suc (length mid).
      \<not> prefix TOOL_CALL_END (drop j (c # mid @ TOOL_CALL_END @ rest))"
    by (auto simp: list_all_iff less_Suc_eq)
  then have "\<not> prefix TOOL_CALL_END (c # mid @ TOOL_CALL_END @ rest)"
    by (metis drop0 zero_less_Suc)
  moreover have "\<forall>j < length mid. \<not> prefix TOOL_CALL_END (drop j (mid @ TOOL_CALL_END @ rest))"
    using all by (metis Suc_less_eq drop_Suc_Cons)
  then have "find_end (mid @ TOOL_CALL_END @ rest) = Some rest"
    by (intro Cons.IH) (simp add: list_all_iff)
  ultimately show ?case
    by simp
qed

lemma re_sub_first_span:
  assumes "first_span s pre mid rest"
  shows "re_sub s = pre @ re_sub rest"
proof -
  from assms have s: "s = pre @ TOOL_CALL @ mid @ TOOL_CALL_END @ rest"
    and l: "\<forall>k < length pre. \<not> prefix TOOL_CALL (drop k s)"
    and f: "find_end (mid @ TOOL_CALL_END @ rest) = Some rest"
    by (auto simp: first_span_def list_all_iff intro: find_end_first)
  have "re_sub (pre @ TOOL_CALL @ mid @ TOOL_CALL_END @ rest) = pre @ re_sub rest"
    using l unfolding s
  proof (induction pre)
    case Nil
    have "match_span (TOOL_CALL @ mid @ TOOL_CALL_END @ rest) = Some rest"
      using f by (simp add: match_span_def)
    moreover have "TOOL_CALL @ mid @ TOOL_CALL_END @ rest \<noteq> []"
      by (simp add: TOOL_CALL_def)
    ultimately show ?case
      by (simp add: re_sub_unfold)
  next
    case (Cons c pre)
    have "\<not> prefix TOOL_CALL (c # pre @ TOOL_CALL @ mid @ TOOL_CALL_END @ rest)"
      using Cons.prems by (metis append_Cons drop0 length_greater_0_conv list.distinct(1))
    then have m: "match_span (c # pre @ TOOL_CALL @ mid @ TOOL_CALL_END @ rest) = None"
      by (simp add: match_span_def)
    have "\<forall>k < length pre. \<not> prefix TOOL_CALL (drop k (pre @ TOOL_CALL @ mid @ TOOL_CALL_END @ rest))"
      using Cons.prems by (metis Suc_less_eq append_Cons drop_Suc_Cons length_Cons)
    then have "re_sub (pre @ TOOL_CALL @ mid @ TOOL_CALL_END @ rest) = pre @ re_sub rest"
      by (rule Cons.IH)
    then show ?case
      using m by simp
  qed
  then show ?thesis
    unfolding s .
qed

lemma first_span_exists:
  assumes "has_span s"
  shows "\<exists>pre mid rest. first_span s pre mid rest"
  using assms
proof (induction s)
  case Nil
  then show ?case by simp
next
  case (Cons c r)
  show ?case
  proof (cases "prefix TOOL_CALL (c # r)")
    case True
    from Cons.prems obtain pre0 mid0 rest0 where
      e: "c # r = pre0 @ TOOL_CALL @ mid0 @ TOOL_CALL_END @ rest0"
      unfolding has_span_shape by blast
    have "sublist TOOL_CALL_END (drop (length TOOL_CALL) (c # r))"
    proof -
      have "drop (length TOOL_CALL) (c # r) =
          drop (length TOOL_CALL) pre0 @
          drop (length TOOL_CALL - length pre0) TOOL_CALL @ mid0 @ TOOL_CALL_END @ rest0"
        unfolding e by simp
      then show ?thesis
        unfolding sublist_def by (metis append.assoc)
    qed
    then obtain mid1 rest1 where "drop (length TOOL_CALL) (c # r) = mid1 @ TOOL_CALL_END @ rest1"
      by (auto simp: sublist_def)
    then have "find_end (drop (length TOOL_CALL) (c # r)) \<noteq> None"
      using find_end_complete [of mid1 rest1] by simp
    then obtain rest where fe: "find_end (drop (length TOOL_CALL) (c # r)) = Some rest"
      by auto
    from find_end_shape [OF fe] obtain mid where
      d: "drop (length TOOL_CALL) (c # r) = mid @ TOOL_CALL_END @ rest"
      and k: "\<forall>k < length mid. \<not> prefix TOOL_CALL_END (drop k (drop (length TOOL_CALL) (c # r)))"
      by blast
    have "c # r = TOOL_CALL @ drop (length TOOL_CALL) (c # r)"
      using True by (metis append_eq_conv_conj prefixE)
    then have "c # r = [] @ TOOL_CALL @ mid @ TOOL_CALL_END @ rest"
      using d by simp
    moreover have "list_all (\<lambda>j. \<not> prefix TOOL_CALL_END (drop j (mid @ TOOL_CALL_END @ rest)))
        [0..<length mid]"
      using k unfolding d by (simp add: list_all_iff)
    ultimately have "first_span (c # r) [] mid rest"
      by (simp add: first_span_def)
    then show ?thesis
      by blast
  next
    case False
    then have "has_span r"
      using Cons.prems by simp
    from Cons.IH [OF this] obtain pre mid rest where fs: "first_span r pre mid rest"
      by blast
    then have r: "r = pre @ TOOL_CALL @ mid @ TOOL_CALL_END @ rest"
      and l: "\<forall>k < length pre. \<not> prefix TOOL_CALL (drop k r)"
      and m: "list_all (\<lambda>j. \<not> prefix TOOL_CALL_END (drop j (mid @ TOOL_CALL_END @ rest)))
          [0..<length mid]"
      by (auto simp: first_span_def list_all_iff)
    have "\<not> prefix TOOL_CALL (drop k (c # r))" if "k < length (c # pre)" for k
    proof (cases k)
      case 0
      then show ?thesis using False by simp
    next
      case (Suc j)
      then show ?thesis using that l by simp
    qed
    then have "list_all (\<lambda>k. \<not> prefix TOOL_CALL (drop k (c # r))) [0..<length (c # pre)]"
      by (simp add: list_all_iff)
    moreover have "c # r = (c # pre) @ TOOL_CALL @ mid @ TOOL_CALL_END @ rest"
      using r by simp
    ultimately have "first_span (c # r) (c # pre) mid rest"
      using m unfolding first_span_def by blast
    then show ?thesis
      by blast
  qed
qed

lemma remove_idem_span:
  "(remove_tool_calls_from_content (remove_tool_calls_from_content x) =
      remove_tool_calls_from_content x) = (\<not> has_span (remove_tool_calls_from_content x))"
proof -
  let ?y = "remove_tool_calls_from_content x"
  have "(re_sub ?y = ?y) = (\<not> has_span ?y)"
    using re_sub_without_span [of ?y] re_sub_with_span [of ?y] by auto
  then show ?thesis
    using remove_idem_iff [of x] by simp
qed

text \<open>
  C5, as the code has it. For every text without the marker \<^verbatim>\<open>TOOL_CALL:\<close> both parsers
  return no call, removing the directives returns the text trimmed of its surrounding
  whitespace, and removing them a second time changes nothing. For every text, removing
  the directives is one pass from the left followed by the trim: a text that holds no
  span, from a marker \<^verbatim>\<open>TOOL_CALL:\<close> to a \<^verbatim>\<open>TOOL_CALL_END\<close> after it, is left as it is by the
  pass; in a text that holds one, the pass keeps what stands before the leftmost marker,
  drops the marker and what follows up to and with the first \<^verbatim>\<open>TOOL_CALL_END\<close> after it,
  and goes on in the same way with the rest; and every text that holds a span has such a
  leftmost span. The trim drops whitespace at the two ends and nothing else. Removing the
  directives a second time changes nothing exactly when the first result holds no span
  any more. What is left is the text without some of its characters, in their order.
\<close>

theorem remove_tool_calls_leftmost_spans:
  "(\<not> py_contains TOOL_CALL x \<longrightarrow>
      parse_tool_calls x = [] \<and> parse_tool_calls_keyed x = Inr [] \<and>
      remove_tool_calls_from_content x = py_strip x \<and>
      remove_tool_calls_from_content (remove_tool_calls_from_content x) =
        remove_tool_calls_from_content x)
   \<and> (remove_tool_calls_from_content (remove_tool_calls_from_content x) =
         remove_tool_calls_from_content x
        \<longleftrightarrow> re_sub (remove_tool_calls_from_content x) = remove_tool_calls_from_content x)
   \<and> subseq (remove_tool_calls_from_content x) x
   \<and> remove_tool_calls_from_content x = py_strip (re_sub x)
   \<and> has_span s = (\<exists>p m r. s = p @ TOOL_CALL @ m @ TOOL_CALL_END @ r)
   \<and> (\<not> has_span s \<longrightarrow> re_sub s = s)
   \<and> (first_span s pre mid rest \<longrightarrow> re_sub s = pre @ re_sub rest)
   \<and> (has_span s \<longrightarrow> (\<exists>p m r. first_span s p m r))
   \<and> (\<exists>p q. s = p @ py_strip s @ q \<and> list_all py_isspace p \<and> list_all py_isspace q)
   \<and> (py_strip s \<noteq> [] \<longrightarrow> \<not> py_isspace (hd (py_strip s)) \<and> \<not> py_isspace (last (py_strip s)))
   \<and> (remove_tool_calls_from_content (remove_tool_calls_from_content x) =
         remove_tool_calls_from_content x) = (\<not> has_span (remove_tool_calls_from_content x))"
proof (intro conjI impI)
  assume n: "\<not> py_contains TOOL_CALL x"
  show "parse_tool_calls x = []"
    using n by (simp add: parse_tool_calls_def finditer_no_marker)
  show "parse_tool_calls_keyed x = Inr []"
    using n by (simp add: parse_tool_calls_keyed_def finditer_no_marker)
  show r: "remove_tool_calls_from_content x = py_strip x"
    using n by (simp add: remove_tool_calls_from_content_def re_sub_no_marker)
  have "re_sub (py_strip x) = py_strip x"
    using n by (intro re_sub_no_marker no_marker_strip)
  then show "remove_tool_calls_from_content (remove_tool_calls_from_content x) =
      remove_tool_calls_from_content x"
    unfolding r by (simp add: remove_tool_calls_from_content_def py_strip_def strip_where_idem)
next
  show "remove_tool_calls_from_content (remove_tool_calls_from_content x) =
      remove_tool_calls_from_content x
    \<longleftrightarrow> re_sub (remove_tool_calls_from_content x) = remove_tool_calls_from_content x"
    by (rule remove_idem_iff)
next
  show "subseq (remove_tool_calls_from_content x) x"
    by (rule remove_subseq)
next
  show "remove_tool_calls_from_content x = py_strip (re_sub x)"
    by (rule remove_tool_calls_from_content_def)
next
  show "has_span s = (\<exists>p m r. s = p @ TOOL_CALL @ m @ TOOL_CALL_END @ r)"
    by (rule has_span_shape)
next
  assume "\<not> has_span s"
  then show "re_sub s = s"
    by (rule re_sub_without_span)
next
  assume "first_span s pre mid rest"
  then show "re_sub s = pre @ re_sub rest"
    by (rule re_sub_first_span)
next
  assume "has_span s"
  then show "\<exists>p m r. first_span s p m r"
    by (rule first_span_exists)
next
  have "s = takeWhile py_isspace s @ py_strip s @
      rev (takeWhile py_isspace (rev (dropWhile py_isspace s)))"
    unfolding py_strip_def by (rule strip_where_decomp)
  moreover have "list_all py_isspace (takeWhile py_isspace s)"
    by (simp add: list_all_iff) (meson set_takeWhileD)
  moreover have "list_all py_isspace (rev (takeWhile py_isspace (rev (dropWhile py_isspace s))))"
    by (simp add: list_all_iff) (meson set_takeWhileD)
  ultimately show "\<exists>p q. s = p @ py_strip s @ q \<and> list_all py_isspace p \<and> list_all py_isspace q"
    by blast
next
  assume "py_strip s \<noteq> []"
  then show "\<not> py_isspace (hd (py_strip s))" "\<not> py_isspace (last (py_strip s))"
    using strip_where_ends [of py_isspace s] by (simp_all add: py_strip_def)
next
  show "(remove_tool_calls_from_content (remove_tool_calls_from_content x) =
         remove_tool_calls_from_content x) = (\<not> has_span (remove_tool_calls_from_content x))"
    by (rule remove_idem_span)
qed

text \<open>
  The theorem of C5 on a reply without a directive: no call, and the reply trimmed; on
  \<^verbatim>\<open>A TOOL_CALL: f(1) TOOL_CALL_END B\<close>: the span goes and \<^verbatim>\<open>A  B\<close> stays, which holds no
  span, so that a second removal changes nothing; and on a marker that is never closed:
  no span, nothing removed.
\<close>

theorem remove_tool_calls_leftmost_spans_witness:
  \<open>\<not> py_contains TOOL_CALL ''  The answer is 8.  '' \<and>
   parse_tool_calls ''  The answer is 8.  '' = [] \<and>
   parse_tool_calls_keyed ''  The answer is 8.  '' = Inr [] \<and>
   remove_tool_calls_from_content ''  The answer is 8.  '' = ''The answer is 8.'' \<and>
   remove_tool_calls_from_content (remove_tool_calls_from_content ''  The answer is 8.  '') =
     remove_tool_calls_from_content ''  The answer is 8.  '' \<and>
   first_span ''A TOOL_CALL: f(1) TOOL_CALL_END B'' ''A '' '' f(1) '' '' B'' \<and>
   has_span ''A TOOL_CALL: f(1) TOOL_CALL_END B'' \<and>
   (\<exists>p m r. first_span ''A TOOL_CALL: f(1) TOOL_CALL_END B'' p m r) \<and>
   re_sub ''A TOOL_CALL: f(1) TOOL_CALL_END B'' = ''A  B'' \<and>
   remove_tool_calls_from_content ''A TOOL_CALL: f(1) TOOL_CALL_END B'' = ''A  B'' \<and>
   \<not> has_span (remove_tool_calls_from_content ''A TOOL_CALL: f(1) TOOL_CALL_END B'') \<and>
   remove_tool_calls_from_content
     (remove_tool_calls_from_content ''A TOOL_CALL: f(1) TOOL_CALL_END B'') =
     remove_tool_calls_from_content ''A TOOL_CALL: f(1) TOOL_CALL_END B'' \<and>
   \<not> has_span ''TOOL_CALL: never closed'' \<and>
   re_sub ''TOOL_CALL: never closed'' = ''TOOL_CALL: never closed'' \<and>
   py_strip '' ok '' \<noteq> [] \<and> \<not> py_isspace (hd (py_strip '' ok ''))\<close>
proof -
  let ?w = \<open>''  The answer is 8.  ''\<close>
  let ?d = \<open>''A TOOL_CALL: f(1) TOOL_CALL_END B''\<close>
  note W = remove_tool_calls_leftmost_spans [where x = ?w and s = \<open>'' ok ''\<close>]
  note D = remove_tool_calls_leftmost_spans
    [where x = ?d and s = ?d and pre = \<open>''A ''\<close> and mid = \<open>'' f(1) ''\<close> and rest = \<open>'' B''\<close>]
  note B = remove_tool_calls_leftmost_spans [where s = \<open>'' B''\<close>]
  note N = remove_tool_calls_leftmost_spans [where s = \<open>''TOOL_CALL: never closed''\<close>]
  have h: \<open>\<not> py_contains TOOL_CALL ?w\<close>
    by code_simp
  have t: \<open>py_strip ?w = ''The answer is 8.''\<close>
    by code_simp
  note K = W [THEN conjunct1, THEN mp, OF h]
  note a1 = K [THEN conjunct1]
  note a2 = K [THEN conjunct2, THEN conjunct1]
  note a3 = K [THEN conjunct2, THEN conjunct2, THEN conjunct1]
  note a4 = K [THEN conjunct2, THEN conjunct2, THEN conjunct2]
  have a3': \<open>remove_tool_calls_from_content ?w = ''The answer is 8.''\<close>
    using a3 t by (rule trans)
  have f: \<open>first_span ?d ''A '' '' f(1) '' '' B''\<close>
    by code_simp
  have g: \<open>has_span ?d\<close>
    by code_simp
  have b: \<open>\<not> has_span '' B''\<close>
    by code_simp
  have c: \<open>\<not> has_span ''TOOL_CALL: never closed''\<close>
    by code_simp
  have s: \<open>py_strip ''A  B'' = ''A  B''\<close>
    by code_simp
  have n: \<open>\<not> has_span ''A  B''\<close>
    by code_simp
  have o: \<open>py_strip '' ok '' \<noteq> []\<close>
    by code_simp
  note tl4 = conjunct2 [THEN conjunct2, THEN conjunct2, THEN conjunct2]
  note e = D [THEN tl4, THEN conjunct2, THEN conjunct2, THEN conjunct2, THEN conjunct1, THEN mp, OF g]
  note step = D [THEN tl4, THEN conjunct2, THEN conjunct2, THEN conjunct1, THEN mp, OF f]
  note rb = B [THEN tl4, THEN conjunct2, THEN conjunct1, THEN mp, OF b]
  note u = N [THEN tl4, THEN conjunct2, THEN conjunct1, THEN mp, OF c]
  note v = W [THEN tl4, THEN tl4, THEN conjunct2, THEN conjunct1, THEN mp, OF o, THEN conjunct1]
  have r: \<open>re_sub ?d = ''A  B''\<close>
    unfolding step rb by simp
  have m: \<open>remove_tool_calls_from_content ?d = ''A  B''\<close>
    unfolding D [THEN conjunct2, THEN conjunct2, THEN conjunct2, THEN conjunct1] r s by (rule refl)
  have n': \<open>\<not> has_span (remove_tool_calls_from_content ?d)\<close>
    unfolding m by (rule n)
  note i = D [THEN tl4, THEN tl4, THEN conjunct2, THEN conjunct2, THEN iffD2, OF n']
  show ?thesis
    by (intro conjI) (rule h a1 a2 a3' a4 f g e r m n' i c u o v)+
qed

text \<open>
  C5 as stated fails: the text around a removed span can join into a new span. Removing
  the directives of \<^verbatim>\<open>TOOL_TOOL_CALL: a TOOL_CALL_ENDCALL: b TOOL_CALL_END\<close> leaves
  \<^verbatim>\<open>TOOL_CALL: b TOOL_CALL_END\<close>, and removing them again leaves the empty text. A span
  is removed also when the parser reads no directive in it.
\<close>

theorem remove_tool_calls_not_idempotent:
  \<open>remove_tool_calls_from_content ''TOOL_TOOL_CALL: a TOOL_CALL_ENDCALL: b TOOL_CALL_END'' =
     ''TOOL_CALL: b TOOL_CALL_END'' \<and>
   remove_tool_calls_from_content
     (remove_tool_calls_from_content ''TOOL_TOOL_CALL: a TOOL_CALL_ENDCALL: b TOOL_CALL_END'') = [] \<and>
   remove_tool_calls_from_content
     (remove_tool_calls_from_content ''TOOL_TOOL_CALL: a TOOL_CALL_ENDCALL: b TOOL_CALL_END'') \<noteq>
   remove_tool_calls_from_content ''TOOL_TOOL_CALL: a TOOL_CALL_ENDCALL: b TOOL_CALL_END'' \<and>
   parse_tool_calls ''Write TOOL_CALL: name(args) then TOOL_CALL_END.'' = [] \<and>
   remove_tool_calls_from_content ''Write TOOL_CALL: name(args) then TOOL_CALL_END.'' = ''Write .''\<close>
  by code_simp

subsection \<open>The termination marker\<close>

text \<open>
  C7. When the user text contains the marker \<^verbatim>\<open>TERMINATE\<close>, \<^verbatim>\<open>handle_message\<close> of the
  step-2 agent and of the Ollama agent returns \<^verbatim>\<open>None\<close> (the terminal sentinel, no
  exception), sends no request to the provider, and leaves the agent as it was: no message
  appended, \<^verbatim>\<open>message_count\<close> unchanged.
\<close>

theorem terminate_marker_ends_turn:
  assumes "py_contains TERMINATE user_input"
  shows "handle_message_step2 rt client self user_input =
           \<lparr>outcome = Returned None, agent_after = self, requests = []\<rparr>
         \<and> handle_message_ollama rt chat self user_input =
           \<lparr>outcome = Returned None, agent_after = self, requests = []\<rparr>"
  using assms by (simp add: handle_message_step2_def handle_message_ollama_def)

text \<open>The theorem of C7 on the user text \<^verbatim>\<open>please TERMINATE now\<close>.\<close>

theorem terminate_marker_ends_turn_witness:
  \<open>py_contains TERMINATE ''please TERMINATE now'' \<and>
   handle_message_step2 example_interp (\<lambda>h. Some ''ok'') (new_agent ''sys'' (Some 10))
       ''please TERMINATE now'' =
     \<lparr>outcome = Returned None, agent_after = new_agent ''sys'' (Some 10), requests = []\<rparr> \<and>
   handle_message_ollama example_interp
       (\<lambda>t h. \<lparr>reply_content = Some ''ok'', reply_tool_calls = []\<rparr>)
       (new_agent ''sys'' (Some 10)) ''please TERMINATE now'' =
     \<lparr>outcome = Returned None, agent_after = new_agent ''sys'' (Some 10), requests = []\<rparr>\<close>
proof -
  have h: \<open>py_contains TERMINATE ''please TERMINATE now''\<close>
    by code_simp
  from terminate_marker_ends_turn [OF h] h show ?thesis
    by blast
qed

subsection \<open>Quotes around a positional argument\<close>

text \<open>
  C9, as the code has it. The coercer removes every leading and every trailing quote
  character of an argument token, single or double, matching or not: the token is the
  value between two runs of quote characters, the value neither starts nor ends with a
  quote character, and the conversion sees the value only. Quote characters with another
  character on both sides stay.
\<close>

theorem strip_quotes_every_layer:
  "(\<exists>pre suf. arg_part = pre @ strip_quotes arg_part @ suf \<and>
       set pre \<subseteq> {dq, sq} \<and> set suf \<subseteq> {dq, sq})
   \<and> (strip_quotes arg_part \<noteq> [] \<longrightarrow>
        hd (strip_quotes arg_part) \<notin> {dq, sq} \<and> last (strip_quotes arg_part) \<notin> {dq, sq})
   \<and> coerce param_type arg_part = coerce param_type (strip_quotes arg_part)"
proof (intro conjI impI)
  let ?P = "\<lambda>c. c \<in> set [dq, sq]"
  have "arg_part = takeWhile ?P arg_part @ strip_quotes arg_part @
      rev (takeWhile ?P (rev (dropWhile ?P arg_part)))"
    unfolding strip_quotes_def py_strip_chars_def by (rule strip_where_decomp)
  moreover have "set (takeWhile ?P arg_part) \<subseteq> {dq, sq}"
    using set_takeWhileD by fastforce
  moreover have "set (rev (takeWhile ?P (rev (dropWhile ?P arg_part)))) \<subseteq> {dq, sq}"
    using set_takeWhileD by fastforce
  ultimately show "\<exists>pre suf. arg_part = pre @ strip_quotes arg_part @ suf \<and>
      set pre \<subseteq> {dq, sq} \<and> set suf \<subseteq> {dq, sq}"
    by blast
next
  assume "strip_quotes arg_part \<noteq> []"
  then show "hd (strip_quotes arg_part) \<notin> {dq, sq}" "last (strip_quotes arg_part) \<notin> {dq, sq}"
    using strip_where_ends [of "\<lambda>c. c \<in> set [dq, sq]" arg_part]
    by (simp_all add: strip_quotes_def py_strip_chars_def)
next
  have "strip_quotes (strip_quotes arg_part) = strip_quotes arg_part"
    by (simp add: strip_quotes_def py_strip_chars_def strip_where_idem)
  then show "coerce param_type arg_part = coerce param_type (strip_quotes arg_part)"
    by (simp add: coerce_def)
qed

text \<open>The theorem of C9 on the token \<^verbatim>\<open>'a"b'\<close>: the outer quotes go, the inner one
  stays.\<close>

theorem strip_quotes_every_layer_witness:
  \<open>strip_quotes ([sq] @ ''a"b'' @ [sq]) \<noteq> [] \<and>
   hd (strip_quotes ([sq] @ ''a"b'' @ [sq])) \<notin> {dq, sq} \<and>
   last (strip_quotes ([sq] @ ''a"b'' @ [sq])) \<notin> {dq, sq} \<and>
   strip_quotes ([sq] @ ''a"b'' @ [sq]) = ''a"b''\<close>
proof -
  have h: \<open>strip_quotes ([sq] @ ''a"b'' @ [sq]) \<noteq> []\<close>
    by code_simp
  have v: \<open>strip_quotes ([sq] @ ''a"b'' @ [sq]) = ''a"b''\<close>
    by code_simp
  from strip_quotes_every_layer [of \<open>[sq] @ ''a"b'' @ [sq]\<close>] h v show ?thesis
    by blast
qed

text \<open>
  C9 as stated fails: the doubly quoted token \<^verbatim>\<open>""x""\<close> loses both layers, and the
  token \<^verbatim>\<open>"x'\<close> loses its two quotes although they do not match.
\<close>

theorem strip_quotes_one_layer_counterexample:
  \<open>coerce AStr ''""x""'' = PStr ''x'' \<and> coerce AStr ''""x""'' \<noteq> PStr ''"x"'' \<and>
   coerce AStr (''"x'' @ [sq]) = PStr ''x'' \<and> coerce AStr (''"x'' @ [sq]) \<noteq> PStr (''"x'' @ [sq])\<close>
  by code_simp

subsection \<open>Keyed tokens without an equals sign\<close>

lemma bind_pairs_filter:
  "bind_pairs arg_pairs args =
     bind_pairs (filter (\<lambda>pair. CHR ''='' \<in> set pair) arg_pairs) args"
  by (induction arg_pairs args rule: bind_pairs.induct) (auto split: sum.splits prod.splits)

lemma split_pairs_no_equals:
  assumes "CHR ''='' \<notin> set args_str"
  shows "filter (\<lambda>pair. CHR ''='' \<in> set pair) (split_pairs args_str) = []"
proof -
  have "CHR ''='' \<notin> set pair" if "pair \<in> set (split_pairs args_str)" for pair
  proof -
    from that obtain p where p: "p \<in> set (py_split (CHR '','') args_str)" and "pair = py_strip p"
      by (auto simp: split_pairs_def)
    then have "set pair \<subseteq> set p"
      using strip_where_sublist [of py_isspace p] by (simp add: py_strip_def set_mono_sublist)
    with py_split_set [OF p] assms show ?thesis
      by blast
  qed
  then show ?thesis
    by (simp add: filter_empty_conv)
qed

text \<open>
  C10. In the keyed parser the tokens without an equals sign never reach the argument
  mapping: binding a token list gives what binding its tokens with an equals sign gives.
  A directive whose argument list holds no equals sign at all still yields its tool call,
  with an empty mapping.
\<close>

theorem keyed_tokens_without_equals:
  "bind_pairs arg_pairs args =
     bind_pairs (filter (\<lambda>pair. CHR ''='' \<in> set pair) arg_pairs) args
   \<and> (CHR ''='' \<notin> set args_str \<longrightarrow>
        parse_loop_keyed [(tool_name, args_str)] [] =
          Inr [\<lparr>call_id = ''call_0'', call_name = tool_name, arguments = []\<rparr>])"
proof (intro conjI impI)
  show "bind_pairs arg_pairs args =
      bind_pairs (filter (\<lambda>pair. CHR ''='' \<in> set pair) arg_pairs) args"
    by (rule bind_pairs_filter)
next
  assume n: "CHR ''='' \<notin> set args_str"
  have "bind_pairs (split_pairs args_str) [] = Inr []"
    using bind_pairs_filter [of "split_pairs args_str" "[]"] split_pairs_no_equals [OF n]
    by simp
  then have "parse_args_keyed args_str = Inr []"
    by (simp add: parse_args_keyed_def)
  moreover have "str_nat 0 = ''0''"
    by code_simp
  ultimately show "parse_loop_keyed [(tool_name, args_str)] [] =
      Inr [\<lparr>call_id = ''call_0'', call_name = tool_name, arguments = []\<rparr>]"
    by simp
qed

text \<open>The theorem of C10 on \<^verbatim>\<open>TOOL_CALL: calculator(5, 3, +) TOOL_CALL_END\<close>: one call,
  no argument bound.\<close>

theorem keyed_tokens_without_equals_witness:
  \<open>CHR ''='' \<notin> set ''5, 3, +'' \<and>
   parse_tool_calls_keyed ''TOOL_CALL: calculator(5, 3, +) TOOL_CALL_END'' =
     Inr [\<lparr>call_id = ''call_0'', call_name = ''calculator'', arguments = []\<rparr>]\<close>
proof -
  have h: \<open>CHR ''='' \<notin> set ''5, 3, +''\<close>
    by simp
  have f: \<open>finditer ''TOOL_CALL: calculator(5, 3, +) TOOL_CALL_END'' =
      [(''calculator'', ''5, 3, +'')]\<close>
    by code_simp
  from keyed_tokens_without_equals [of _ _ \<open>''5, 3, +''\<close> \<open>''calculator''\<close>] h
  have \<open>parse_loop_keyed [(''calculator'', ''5, 3, +'')] [] =
      Inr [\<lparr>call_id = ''call_0'', call_name = ''calculator'', arguments = []\<rparr>]\<close>
    by blast
  with h f show ?thesis
    by (simp only: parse_tool_calls_keyed_def simp_thms)
qed


subsection \<open>Tokenizing the argument list\<close>

lemma top_level_split_nonempty: "top_level_split q s \<noteq> []"
  by (induction s arbitrary: q) (auto split: list.splits)

lemma split_loop_top_level:
  "split_loop s arg_parts current_part q =
     (arg_parts @ map py_strip (butlast ((current_part @ hd (top_level_split q s)) # tl (top_level_split q s))),
      last ((current_part @ hd (top_level_split q s)) # tl (top_level_split q s)))"
proof (induction s arbitrary: arg_parts current_part q)
  case Nil
  then show ?case by simp
next
  case (Cons c cs)
  show ?case
  proof (cases "c = CHR '','' \<and> \<not> q")
    case True
    then have nq: "c \<noteq> dq" "c \<noteq> sq"
      by (simp_all add: dq_def sq_def)
    obtain p ps where T: "top_level_split q cs = p # ps"
      using top_level_split_nonempty [of q cs] by (cases "top_level_split q cs") auto
    show ?thesis
      using True nq T Cons.IH [of "arg_parts @ [py_strip current_part]" "[]" q]
      by simp
  next
    case False
    let ?q = "if is_quote c then \<not> q else q"
    obtain p ps where T: "top_level_split ?q cs = p # ps"
      using top_level_split_nonempty [of ?q cs] by (cases "top_level_split ?q cs") auto
    show ?thesis
    proof (cases "is_quote c")
      case True
      then show ?thesis
        using False T Cons.IH [of arg_parts "current_part @ [c]" "\<not> q"]
        by (auto simp: is_quote_def)
    next
      case q: False
      then show ?thesis
        using False T Cons.IH [of arg_parts "current_part @ [c]" q]
        by (auto simp: is_quote_def)
    qed
  qed
qed

lemma split_args_top_level:
  "split_args args_str =
     map py_strip
       (if py_strip (last (top_level_split False args_str)) = []
        then butlast (top_level_split False args_str) else top_level_split False args_str)"
proof -
  obtain p ps where T: "top_level_split False args_str = p # ps"
    using top_level_split_nonempty [of False args_str]
    by (cases "top_level_split False args_str") auto
  show ?thesis
    unfolding split_args_def split_loop_top_level T
    by (simp add: map_butlast [symmetric] snoc_eq_iff_butlast last_map)
qed

lemma join_top_level_split: "join_commas (top_level_split q s) = s"
proof (induction s arbitrary: q)
  case Nil
  then show ?case by simp
next
  case (Cons c cs)
  obtain p ps where T: "top_level_split q cs = p # ps"
    using top_level_split_nonempty [of q cs] by (cases "top_level_split q cs") auto
  obtain p' ps' where T': "top_level_split (\<not> q) cs = p' # ps'"
    using top_level_split_nonempty [of "\<not> q" cs] by (cases "top_level_split (\<not> q) cs") auto
  have j: "join_commas ((c # x) # xs) = c # join_commas (x # xs)" for x xs
    by (cases xs) simp_all
  show ?case
    using Cons.IH [of q] Cons.IH [of "\<not> q"] T T' by (auto simp: j)
qed

lemma top_level_split_quotes:
  "top_level_split q s = p # ps \<Longrightarrow>
     (ps \<noteq> [] \<longrightarrow> odd (quote_count p) = q) \<and> list_all (\<lambda>x. even (quote_count x)) (butlast ps)"
proof (induction s arbitrary: q p ps)
  case Nil
  then show ?case by auto
next
  case (Cons c cs)
  show ?case
  proof (cases "c = CHR '','' \<and> \<not> q")
    case True
    then have e: "p = []" "ps = top_level_split False cs" and q: "q = False"
      using Cons.prems by auto
    obtain p' ps' where T: "top_level_split False cs = p' # ps'"
      using top_level_split_nonempty [of False cs] by (cases "top_level_split False cs") auto
    from Cons.IH [OF T] show ?thesis
      unfolding e T q by (cases ps') (auto simp: quote_count_def)
  next
    case False
    let ?q = "if is_quote c then \<not> q else q"
    obtain p' ps' where T: "top_level_split ?q cs = p' # ps'"
      using top_level_split_nonempty [of ?q cs] by (cases "top_level_split ?q cs") auto
    then have e: "p = c # p'" "ps = ps'"
      using Cons.prems False by auto
    from Cons.IH [OF T] show ?thesis
      by (auto simp: e quote_count_def)
  qed
qed

lemma top_level_split_commas:
  "top_level_split q s = p # ps \<Longrightarrow>
     \<not> has_top_level_comma q p \<and> list_all (\<lambda>x. \<not> has_top_level_comma False x) ps"
proof (induction s arbitrary: q p ps)
  case Nil
  then show ?case by auto
next
  case (Cons c cs)
  show ?case
  proof (cases "c = CHR '','' \<and> \<not> q")
    case True
    then have e: "p = []" "ps = top_level_split False cs" and q: "q = False"
      using Cons.prems by auto
    obtain p' ps' where T: "top_level_split False cs = p' # ps'"
      using top_level_split_nonempty [of False cs] by (cases "top_level_split False cs") auto
    from Cons.IH [OF T] show ?thesis
      unfolding e T q by simp
  next
    case False
    let ?q = "if is_quote c then \<not> q else q"
    obtain p' ps' where T: "top_level_split ?q cs = p' # ps'"
      using top_level_split_nonempty [of ?q cs] by (cases "top_level_split ?q cs") auto
    then have e: "p = c # p'" "ps = ps'"
      using Cons.prems False by auto
    from Cons.IH [OF T] False show ?thesis
      by (auto simp: e)
  qed
qed

lemma py_split_length: "length (py_split sep s) = Suc (length (filter (\<lambda>c. c = sep) s))"
  by (induction s) (auto split: list.splits)

text \<open>
  C6, as the code has it. The positional parser splits the argument list at its top-level
  commas only: its tokens are the trimmed pieces of the cut at the top-level commas, the
  last piece dropped when blank; the pieces joined by commas give the argument list back;
  every piece before the last holds an even number of quote characters, so the comma after
  it is outside quotes; and no piece holds a comma outside quotes. The argument list of
  \<^verbatim>\<open>foo("a,b", 2)\<close> gives two tokens. The keyed parser splits at every comma, quoted or
  not: it makes one token more than the argument list has commas.
\<close>

theorem positional_split_top_level_only:
  \<open>split_args args_str =
     map py_strip
       (if py_strip (last (top_level_split False args_str)) = []
        then butlast (top_level_split False args_str) else top_level_split False args_str)
   \<and> join_commas (top_level_split False args_str) = args_str
   \<and> list_all (\<lambda>p. even (quote_count p)) (butlast (top_level_split False args_str))
   \<and> list_all (\<lambda>p. \<not> has_top_level_comma False p) (top_level_split False args_str)
   \<and> finditer ''TOOL_CALL: foo("a,b", 2) TOOL_CALL_END'' = [(''foo'', ''"a,b", 2'')]
   \<and> split_args ''"a,b", 2'' = [''"a,b"'', ''2'']
   \<and> length (split_pairs args_str) = Suc (length (filter (\<lambda>c. c = CHR '','') args_str))\<close>
proof (intro conjI)
  obtain p ps where T: "top_level_split False args_str = p # ps"
    using top_level_split_nonempty [of False args_str]
    by (cases "top_level_split False args_str") auto
  show \<open>split_args args_str =
     map py_strip
       (if py_strip (last (top_level_split False args_str)) = []
        then butlast (top_level_split False args_str) else top_level_split False args_str)\<close>
    by (rule split_args_top_level)
  show \<open>join_commas (top_level_split False args_str) = args_str\<close>
    by (rule join_top_level_split)
  show \<open>list_all (\<lambda>p. even (quote_count p)) (butlast (top_level_split False args_str))\<close>
    using top_level_split_quotes [OF T] unfolding T by (cases ps) auto
  show \<open>list_all (\<lambda>p. \<not> has_top_level_comma False p) (top_level_split False args_str)\<close>
    using top_level_split_commas [OF T] unfolding T by simp
  show \<open>finditer ''TOOL_CALL: foo("a,b", 2) TOOL_CALL_END'' = [(''foo'', ''"a,b", 2'')]\<close>
    by code_simp
  show \<open>split_args ''"a,b", 2'' = [''"a,b"'', ''2'']\<close>
    by code_simp
  show \<open>length (split_pairs args_str) = Suc (length (filter (\<lambda>c. c = CHR '','') args_str))\<close>
    by (simp add: split_pairs_def py_split_length)
qed

text \<open>The theorem of C6 on the argument list \<^verbatim>\<open>"a,b", 2\<close>: the cut has the two pieces
  and the positional parser the two tokens.\<close>

theorem positional_split_top_level_only_witness:
  \<open>top_level_split False ''"a,b", 2'' = [''"a,b"'', '' 2''] \<and>
   split_args ''"a,b", 2'' = map py_strip [''"a,b"'', '' 2''] \<and>
   length (split_args ''"a,b", 2'') = 2\<close>
proof -
  have t: \<open>top_level_split False ''"a,b", 2'' = [''"a,b"'', '' 2'']\<close>
    by code_simp
  have s: \<open>py_strip '' 2'' = ''2''\<close>
    by code_simp
  from positional_split_top_level_only [of \<open>''"a,b", 2''\<close>]
  have \<open>split_args ''"a,b", 2'' =
     map py_strip
       (if py_strip (last (top_level_split False ''"a,b", 2'')) = []
        then butlast (top_level_split False ''"a,b", 2'') else top_level_split False ''"a,b", 2'')\<close>
    by blast
  then have \<open>split_args ''"a,b", 2'' = map py_strip [''"a,b"'', '' 2'']\<close>
    unfolding t using s by simp
  with t show ?thesis
    by simp
qed

text \<open>
  C6 as stated fails for the keyed syntax: the keyed parser cuts the argument list
  \<^verbatim>\<open>"a,b", 2\<close> at the quoted comma too and makes three tokens of it, and of
  \<^verbatim>\<open>x="a,b", y=2\<close> it binds \<^verbatim>\<open>x\<close> to the broken value \<^verbatim>\<open>"a\<close>.
\<close>

theorem keyed_split_inside_quotes:
  \<open>split_pairs ''"a,b", 2'' = [''"a'', ''b"'', ''2''] \<and>
   length (split_pairs ''"a,b", 2'') = 3 \<and>
   parse_args_keyed ''x="a,b", y=2'' = Inr [(''x'', PStr ''"a''), (''y'', PFloat (Fin 2))]\<close>
  by code_simp


subsection \<open>Dispatch: what is skipped, what is returned, what is raised\<close>

lemma registered_calculator: "registered function_name = (function_name = ''calculator'')"
  by (simp add: registered_def tool_functions_def)

lemma those3:
  "those [x, y, z] = (case (x, y, z) of (Some a, Some b, Some c) \<Rightarrow> Some [a, b, c] | _ \<Rightarrow> None)"
  by (simp split: option.splits)

lemma invoke_binds: "(\<exists>result. invoke rt function_name function_args = Inr result) = binds function_args"
proof -
  have "binds function_args =
      (list_all (\<lambda>k. k \<in> set (map fst calculator_sig)) (map fst function_args) \<and>
       map_of function_args ''a'' \<noteq> None \<and> map_of function_args ''b'' \<noteq> None \<and>
       map_of function_args ''operator'' \<noteq> None)"
    unfolding binds_def calculator_sig_def map_of_eq_None_iff list_all_iff
    by auto
  then show ?thesis
    unfolding invoke_def bind_kwargs_def
    by (auto simp: calculator_sig_def those3 split: option.splits list.splits)
qed

lemma invoke_raises: "invoke rt function_name function_args = Inl e \<Longrightarrow> e = TypeError"
  by (auto simp: invoke_def split: option.splits list.splits)

lemma invoke_cases:
  "invoke rt function_name function_args = Inl TypeError \<and> \<not> binds function_args
   \<or> (\<exists>result. invoke rt function_name function_args = Inr result) \<and> binds function_args"
  using invoke_binds [of rt function_name function_args] invoke_raises [of rt function_name function_args]
  by (cases "invoke rt function_name function_args") auto

lemma process_loop_raises:
  "isl (process_loop rt calls tool_results) =
     list_ex (\<lambda>c. registered (call_name c) \<and> \<not> binds (arguments c)) calls"
proof (induction calls arbitrary: tool_results)
  case Nil
  then show ?case by simp
next
  case (Cons c calls)
  show ?case
  proof (cases "registered (call_name c)")
    case False
    then show ?thesis
      using Cons.IH by (simp add: registered_def)
  next
    case True
    then obtain params where "map_of tool_functions (call_name c) = Some params"
      by (auto simp: registered_def)
    then show ?thesis
      using True Cons.IH invoke_cases [of rt "call_name c" "arguments c"]
      by auto
  qed
qed

lemma process_loop_error: "process_loop rt calls tool_results = Inl e \<Longrightarrow> e = TypeError"
proof (induction calls arbitrary: tool_results)
  case Nil
  then show ?case by simp
next
  case (Cons c calls)
  then show ?case
    by (auto split: option.splits sum.splits dest: invoke_raises)
qed

lemma process_loop_results:
  "process_loop rt calls tool_results = Inr results \<Longrightarrow>
     \<exists>new. results = tool_results @ new \<and>
       list_all2 (\<lambda>c r. result_id r = call_id c \<and> result_name r = call_name c \<and>
                    invoke rt (call_name c) (arguments c) = Inr (result_content r))
         (filter (\<lambda>c. registered (call_name c)) calls) new"
proof (induction calls arbitrary: tool_results)
  case Nil
  then show ?case by simp
next
  case (Cons c calls)
  show ?case
  proof (cases "map_of tool_functions (call_name c)")
    case None
    then show ?thesis
      using Cons by (simp add: registered_def)
  next
    case (Some params)
    with Cons.prems obtain result where
      i: "invoke rt (call_name c) (arguments c) = Inr result" and
      p: "process_loop rt calls
            (tool_results @ [\<lparr>result_id = call_id c, result_name = call_name c,
                              result_content = result\<rparr>]) = Inr results"
      by (auto split: sum.splits)
    from Cons.IH [OF p] obtain new where
      "results = (tool_results @ [\<lparr>result_id = call_id c, result_name = call_name c,
                              result_content = result\<rparr>]) @ new"
      and "list_all2 (\<lambda>c r. result_id r = call_id c \<and> result_name r = call_name c \<and>
                    invoke rt (call_name c) (arguments c) = Inr (result_content r))
         (filter (\<lambda>c. registered (call_name c)) calls) new"
      by blast
    then show ?thesis
      using Some i by (intro exI [of _ "\<lparr>result_id = call_id c, result_name = call_name c,
                              result_content = result\<rparr> # new"]) (simp add: registered_def)
  qed
qed

lemma keys_two_differ: "{''a'', ''b''} \<noteq> {''a'', ''b'', ''operator''}"
proof
  assume e: "{''a'', ''b''} = {''a'', ''b'', ''operator''}"
  have "''operator'' \<in> {''a'', ''b'', ''operator''}"
    by simp
  then have "''operator'' \<in> {''a'', ''b''}"
    unfolding e [symmetric] .
  then show False
    by simp
qed

lemma calculator_keys_none: "map fst (bind_args calculator_sig [] []) = []"
  by (simp add: calculator_sig_def)
lemma calculator_keys_one: "map fst (bind_args calculator_sig [x] []) = [''a'']"
  by (simp add: calculator_sig_def)
lemma calculator_keys_two: "map fst (bind_args calculator_sig [x, y] []) = [''a'', ''b'']"
  by (simp add: calculator_sig_def)
lemma calculator_keys_three: "map fst (bind_args calculator_sig (x # y # z # r) []) = [''a'', ''b'', ''operator'']"
  by (simp add: calculator_sig_def)


lemma keys_one_differ: "{''a''} \<noteq> {''a'', ''b'', ''operator''}"
proof
  assume e: "{''a''} = {''a'', ''b'', ''operator''}"
  have "''b'' \<in> {''a'', ''b'', ''operator''}"
    by simp
  then have "''b'' \<in> {''a''}"
    unfolding e [symmetric] .
  then show False
    by simp
qed

lemma calculator_keys:
  "(set (map fst (bind_args calculator_sig arg_parts [])) = {''a'', ''b'', ''operator''}) =
     (3 \<le> length arg_parts)"
proof (cases arg_parts)
  case Nil
  show ?thesis
    unfolding Nil calculator_keys_none by simp
next
  case 1: (Cons x r1)
  show ?thesis
  proof (cases r1)
    case Nil
    show ?thesis
      unfolding 1 Nil calculator_keys_one using keys_one_differ by simp
  next
    case 2: (Cons y r2)
    show ?thesis
    proof (cases r2)
      case Nil
      show ?thesis
        unfolding 1 2 Nil calculator_keys_two using keys_two_differ by simp
    next
      case (Cons z r3)
      show ?thesis
        unfolding 1 2 Cons calculator_keys_three by simp
    qed
  qed
qed

lemma parse_args_binds:
  "binds (parse_args ''calculator'' args_str) =
     (py_strip args_str \<noteq> [] \<and> 3 \<le> length (split_args args_str))"
proof (cases "py_strip args_str = []")
  case True
  then show ?thesis
    by (simp add: parse_args_def binds_def)
next
  case False
  then have "parse_args ''calculator'' args_str = bind_args calculator_sig (split_args args_str) []"
    by (simp add: parse_args_def tool_functions_def)
  then show ?thesis
    using False calculator_keys [of "split_args args_str"] by (simp add: binds_def)
qed

text \<open>
  C2, as the code has it. \<^verbatim>\<open>process_tool_calls\<close> raises exactly when some call names the
  registered tool with a mapping whose keys are not exactly \<^verbatim>\<open>a\<close>, \<^verbatim>\<open>b\<close>, \<^verbatim>\<open>operator\<close>,
  and then it raises \<^verbatim>\<open>TypeError\<close>; the positional parser produces such a mapping for
  the calculator exactly when the directive has fewer than three arguments. When it
  returns, it returns one result per call to the registered tool, in order, with the id and
  the name of the call and the string the tool returned, calls to unknown tools being
  skipped. Inside the tool a raising operation, a zero divisor and an unknown operator each
  give a string that starts with \<^verbatim>\<open>Error: \<close>. In the positional parser a failed
  \<^verbatim>\<open>float\<close> keeps the string, and a text without a match gives no call. A turn of
  custom_function_calling.py ends with an exception exactly when the first reply holds a
  directive and the dispatch of its calls raises that exception.
\<close>

theorem process_tool_calls_faults:
  "isl (process_tool_calls rt calls) =
     list_ex (\<lambda>c. registered (call_name c) \<and> \<not> binds (arguments c)) calls
   \<and> (process_tool_calls rt calls = Inl e \<longrightarrow> e = TypeError)
   \<and> binds (parse_args ''calculator'' args_str) =
       (py_strip args_str \<noteq> [] \<and> 3 \<le> length (split_args args_str))
   \<and> (process_tool_calls rt calls = Inr results \<longrightarrow>
        list_all2 (\<lambda>c r. result_id r = call_id c \<and> result_name r = call_name c \<and>
                     invoke rt (call_name c) (arguments c) = Inr (result_content r))
          (filter (\<lambda>c. registered (call_name c)) calls) results)
   \<and> (py_arith rt (CHR ''+'') a b = Inl msg \<longrightarrow> calculator rt a b (PStr ''+'') = ''Error: '' @ msg)
   \<and> (py_arith rt (CHR ''-'') a b = Inl msg \<longrightarrow> calculator rt a b (PStr ''-'') = ''Error: '' @ msg)
   \<and> (py_arith rt (CHR ''*'') a b = Inl msg \<longrightarrow> calculator rt a b (PStr ''*'') = ''Error: '' @ msg)
   \<and> (py_eq_zero b \<longrightarrow> calculator rt a b (PStr ''/'') = ''Error: Division by zero'')
   \<and> (operator \<notin> {PStr ''+'', PStr ''-'', PStr ''*'', PStr ''/''} \<longrightarrow>
        calculator rt a b operator = ''Error: Invalid operator. Please use +, -, *, or /'')
   \<and> (py_float (strip_quotes arg_part) = None \<longrightarrow>
        coerce AFloat arg_part = PStr (strip_quotes arg_part))
   \<and> (finditer reply = [] \<longrightarrow> parse_tool_calls reply = [])
   \<and> (outcome (handle_message rt client self user_input) = Raised e') =
       (parse_tool_calls (first_reply client self user_input) \<noteq> [] \<and>
        process_tool_calls rt (parse_tool_calls (first_reply client self user_input)) = Inl e')"
proof (intro conjI impI)
  show "isl (process_tool_calls rt calls) =
      list_ex (\<lambda>c. registered (call_name c) \<and> \<not> binds (arguments c)) calls"
    unfolding process_tool_calls_def by (rule process_loop_raises)
  show "e = TypeError" if "process_tool_calls rt calls = Inl e"
    using that unfolding process_tool_calls_def by (rule process_loop_error)
  show "binds (parse_args ''calculator'' args_str) =
      (py_strip args_str \<noteq> [] \<and> 3 \<le> length (split_args args_str))"
    by (rule parse_args_binds)
  show "list_all2 (\<lambda>c r. result_id r = call_id c \<and> result_name r = call_name c \<and>
                     invoke rt (call_name c) (arguments c) = Inr (result_content r))
          (filter (\<lambda>c. registered (call_name c)) calls) results"
    if "process_tool_calls rt calls = Inr results"
    using process_loop_results [of rt calls "[]" results] that
    by (simp add: process_tool_calls_def)
  show "calculator rt a b (PStr ''+'') = ''Error: '' @ msg" if "py_arith rt (CHR ''+'') a b = Inl msg"
    using that by (simp add: calculator_def try_str_def)
  show "calculator rt a b (PStr ''-'') = ''Error: '' @ msg" if "py_arith rt (CHR ''-'') a b = Inl msg"
    using that by (simp add: calculator_def try_str_def)
  show "calculator rt a b (PStr ''*'') = ''Error: '' @ msg" if "py_arith rt (CHR ''*'') a b = Inl msg"
    using that by (simp add: calculator_def try_str_def)
  show "calculator rt a b (PStr ''/'') = ''Error: Division by zero''" if "py_eq_zero b"
    using that by (simp add: calculator_def)
  show "calculator rt a b operator = ''Error: Invalid operator. Please use +, -, *, or /''"
    if "operator \<notin> {PStr ''+'', PStr ''-'', PStr ''*'', PStr ''/''}"
    using that by (simp add: calculator_def)
  show "coerce AFloat arg_part = PStr (strip_quotes arg_part)"
    if "py_float (strip_quotes arg_part) = None"
    using that by (simp add: coerce_def)
  show "parse_tool_calls reply = []" if "finditer reply = []"
    using that by (simp add: parse_tool_calls_def)
  show "(outcome (handle_message rt client self user_input) = Raised e') =
       (parse_tool_calls (first_reply client self user_input) \<noteq> [] \<and>
        process_tool_calls rt (parse_tool_calls (first_reply client self user_input)) = Inl e')"
    by (simp add: handle_message_def first_reply_def Let_def split: sum.splits)
qed

text \<open>
  The theorem of C2 on concrete calls: a directive with two arguments raises; a division
  by zero and a call to an unknown tool give the one result of the division, an error
  string; a string operand, an unknown operator, a token that is no number and a reply
  without a directive are handled as stated.
\<close>

theorem process_tool_calls_faults_witness:
  \<open>process_tool_calls example_interp
     (parse_tool_calls ''TOOL_CALL: calculator(5, 3) TOOL_CALL_END'') = Inl TypeError \<and>
   \<not> binds (parse_args ''calculator'' ''5, 3'') \<and>
   process_tool_calls example_interp
     (parse_tool_calls
        ''TOOL_CALL: calculator(5, 0, "/") TOOL_CALL_END TOOL_CALL: sqrt(2) TOOL_CALL_END'') =
     Inr [\<lparr>result_id = ''call_0'', result_name = ''calculator'',
           result_content = ''Error: Division by zero''\<rparr>] \<and>
   calculator example_interp (PStr ''abc'') (PFloat (Fin 3)) (PStr ''+'') =
     ''Error: unsupported operand'' \<and>
   calculator example_interp (PFloat (Fin 5)) (PFloat (Fin 0)) (PStr ''/'') =
     ''Error: Division by zero'' \<and>
   calculator example_interp (PFloat (Fin 5)) (PFloat (Fin 0)) (PStr ''%'') =
     ''Error: Invalid operator. Please use +, -, *, or /'' \<and>
   invoke example_interp ''calculator''
     [(''a'', PFloat (Fin 5)), (''b'', PFloat (Fin 0)), (''operator'', PStr ''/'')] =
     Inr ''Error: Division by zero'' \<and>
   coerce AFloat ''"abc"'' = PStr ''abc'' \<and>
   parse_tool_calls ''hello'' = []\<close>
proof -
  let ?division = \<open>\<lparr>call_id = ''call_0'', call_name = ''calculator'',
      arguments = [(''a'', PFloat (Fin 5)), (''b'', PFloat (Fin 0)), (''operator'', PStr ''/'')]\<rparr>\<close>
  let ?unknown = \<open>\<lparr>call_id = ''call_1'', call_name = ''sqrt'', arguments = []\<rparr>\<close>
  let ?result = \<open>\<lparr>result_id = ''call_0'', result_name = ''calculator'',
      result_content = ''Error: Division by zero''\<rparr>\<close>
  have c1: \<open>parse_tool_calls
      ''TOOL_CALL: calculator(5, 0, "/") TOOL_CALL_END TOOL_CALL: sqrt(2) TOOL_CALL_END'' =
      [?division, ?unknown]\<close>
    by code_simp
  have c2: \<open>process_tool_calls example_interp [?division, ?unknown] = Inr [?result]\<close>
    by code_simp
  have c3: \<open>invoke example_interp ''calculator''
      [(''a'', PFloat (Fin 5)), (''b'', PFloat (Fin 0)), (''operator'', PStr ''/'')] =
      Inr ''Error: Division by zero''\<close>
    using process_tool_calls_faults
      [where rt = example_interp and calls = \<open>[?division, ?unknown]\<close> and results = \<open>[?result]\<close>]
      c2
    by (simp add: registered_calculator)
  have a1: \<open>process_tool_calls example_interp
      (parse_tool_calls ''TOOL_CALL: calculator(5, 3) TOOL_CALL_END'') = Inl TypeError\<close>
    by code_simp
  have a2: \<open>\<not> (py_strip ''5, 3'' \<noteq> [] \<and> 3 \<le> length (split_args ''5, 3''))\<close>
    by code_simp
  have a3: \<open>py_arith example_interp (CHR ''+'') (PStr ''abc'') (PFloat (Fin 3)) =
      Inl ''unsupported operand''\<close>
    by code_simp
  have b1: \<open>process_tool_calls example_interp
      (parse_tool_calls
         ''TOOL_CALL: calculator(5, 0, "/") TOOL_CALL_END TOOL_CALL: sqrt(2) TOOL_CALL_END'') =
      Inr [\<lparr>result_id = ''call_0'', result_name = ''calculator'',
            result_content = ''Error: Division by zero''\<rparr>]\<close>
    by code_simp
  have b2: \<open>py_eq_zero (PFloat (Fin 0))\<close>
    by simp
  have b3: \<open>PStr ''%'' \<notin> {PStr ''+'', PStr ''-'', PStr ''*'', PStr ''/''}\<close>
    by simp
  have b4: \<open>py_float (strip_quotes ''"abc"'') = None\<close>
    by code_simp
  have b5: \<open>strip_quotes ''"abc"'' = ''abc''\<close>
    by code_simp
  have b6: \<open>finditer ''hello'' = []\<close>
    by code_simp
  note A = process_tool_calls_faults
    [where rt = example_interp and args_str = \<open>''5, 3''\<close> and a = \<open>PStr ''abc''\<close>
       and b = \<open>PFloat (Fin 3)\<close> and msg = \<open>''unsupported operand''\<close>]
  note B = process_tool_calls_faults
    [where rt = example_interp and a = \<open>PFloat (Fin 5)\<close> and b = \<open>PFloat (Fin 0)\<close>
       and operator = \<open>PStr ''%''\<close> and arg_part = \<open>''"abc"''\<close> and reply = \<open>''hello''\<close>]
  have \<open>\<not> binds (parse_args ''calculator'' ''5, 3'')\<close>
    using A a2 by blast
  moreover have \<open>calculator example_interp (PStr ''abc'') (PFloat (Fin 3)) (PStr ''+'') =
      ''Error: unsupported operand''\<close>
    using A a3 by simp
  moreover have \<open>calculator example_interp (PFloat (Fin 5)) (PFloat (Fin 0)) (PStr ''/'') =
      ''Error: Division by zero''\<close>
    using B b2 by blast
  moreover have \<open>calculator example_interp (PFloat (Fin 5)) (PFloat (Fin 0)) (PStr ''%'') =
      ''Error: Invalid operator. Please use +, -, *, or /''\<close>
    using B b3 by blast
  moreover have \<open>coerce AFloat ''"abc"'' = PStr ''abc''\<close>
    using B b4 b5 by simp
  moreover have \<open>parse_tool_calls ''hello'' = []\<close>
    using B b6 by blast
  ultimately show ?thesis
    using a1 b1 c3 by blast
qed

text \<open>
  C2 as stated fails: dispatching the registered calculator with the mapping the parser
  produced raises \<^verbatim>\<open>TypeError\<close> when the directive has two arguments (positional
  parser) or arguments without keys (keyed parser), and the exception leaves
  \<^verbatim>\<open>handle_message\<close>.
\<close>

theorem dispatch_raises_type_error:
  \<open>process_tool_calls example_interp
     (parse_tool_calls ''TOOL_CALL: calculator(5, 3) TOOL_CALL_END'') = Inl TypeError \<and>
   map_option (process_tool_calls example_interp)
     (case parse_tool_calls_keyed ''TOOL_CALL: calculator(5, 3, +) TOOL_CALL_END'' of
        Inl e \<Rightarrow> None | Inr calls \<Rightarrow> Some calls) = Some (Inl TypeError) \<and>
   outcome (handle_message example_interp
              (\<lambda>h. Some ''TOOL_CALL: calculator(5, 3) TOOL_CALL_END'')
              (new_agent ''sys'' None) ''add 5 and 3'') = Raised TypeError \<and>
   outcome (handle_message_step2 example_interp
              (\<lambda>h. Some ''TOOL_CALL: calculator(5, 3, +) TOOL_CALL_END'')
              (new_agent ''sys'' None) ''add 5 and 3'') = Raised TypeError\<close>
  by code_simp

subsection \<open>Completion requests per turn\<close>

lemma add_tool_results_count: "message_count (add_tool_results self tool_results) = message_count self"
  unfolding add_tool_results_def
  by (induction tool_results arbitrary: self) (simp_all add: add_message_def)

text \<open>
  C1, as the code has it. A turn of custom_function_calling.py sends one request when the
  first reply holds no directive; when it holds one or more, the turn sends two requests
  if the dispatch of the calls returns and one if it raises, which is exactly when the
  turn ends with the exception. A turn of the step-2 agent sends no request when it is
  refused, and else, when the keyed parser returns the calls, the same numbers. No turn
  sends more than two requests, whatever the second reply holds.
\<close>

theorem completion_requests_per_turn:
  "length (requests (handle_message rt client self user_input)) =
     (if parse_tool_calls (first_reply client self user_input) = [] then 1
      else if isl (process_tool_calls rt (parse_tool_calls (first_reply client self user_input)))
      then 1 else 2)
   \<and> (\<exists>e. outcome (handle_message rt client self user_input) = Raised e) =
       (parse_tool_calls (first_reply client self user_input) \<noteq> [] \<and>
        isl (process_tool_calls rt (parse_tool_calls (first_reply client self user_input))))
   \<and> length (requests (handle_message rt client self user_input)) \<le> 2
   \<and> length (requests (handle_message_step2 rt client self user_input)) \<le> 2
   \<and> (py_contains TERMINATE user_input \<or> limit_reached self \<longrightarrow>
        requests (handle_message_step2 rt client self user_input) = [])
   \<and> (\<not> py_contains TERMINATE user_input \<and> \<not> limit_reached self \<and>
        parse_tool_calls_keyed (first_reply client self user_input) = Inr calls \<longrightarrow>
        length (requests (handle_message_step2 rt client self user_input)) =
          (if calls = [] then 1 else if isl (process_tool_calls rt calls) then 1 else 2))"
proof (intro conjI impI)
  show "length (requests (handle_message rt client self user_input)) =
     (if parse_tool_calls (first_reply client self user_input) = [] then 1
      else if isl (process_tool_calls rt (parse_tool_calls (first_reply client self user_input)))
      then 1 else 2)"
    by (simp add: handle_message_def first_reply_def Let_def split: sum.splits)
  show "(\<exists>e. outcome (handle_message rt client self user_input) = Raised e) =
       (parse_tool_calls (first_reply client self user_input) \<noteq> [] \<and>
        isl (process_tool_calls rt (parse_tool_calls (first_reply client self user_input))))"
    by (simp add: handle_message_def first_reply_def Let_def split: sum.splits)
  show "length (requests (handle_message rt client self user_input)) \<le> 2"
    by (simp add: handle_message_def Let_def split: sum.splits)
  show "length (requests (handle_message_step2 rt client self user_input)) \<le> 2"
    by (simp add: handle_message_step2_def Let_def split: sum.splits)
  show "requests (handle_message_step2 rt client self user_input) = []"
    if "py_contains TERMINATE user_input \<or> limit_reached self"
    using that by (auto simp: handle_message_step2_def)
  show "length (requests (handle_message_step2 rt client self user_input)) =
          (if calls = [] then 1 else if isl (process_tool_calls rt calls) then 1 else 2)"
    if "\<not> py_contains TERMINATE user_input \<and> \<not> limit_reached self \<and>
        parse_tool_calls_keyed (first_reply client self user_input) = Inr calls"
    using that by (simp add: handle_message_step2_def first_reply_def Let_def split: sum.splits)
qed

text \<open>
  The theorem of C1 on a provider whose every reply, the second too, is the directive
  \<^verbatim>\<open>TOOL_CALL: calculator(a=5, b=3, operator=+) TOOL_CALL_END\<close>: the step-2 turn sends two
  requests; and on a user text with the marker: none.
\<close>

theorem completion_requests_per_turn_witness:
  \<open>\<not> py_contains TERMINATE ''add 5 and 3'' \<and> \<not> limit_reached (new_agent ''sys'' (Some 10)) \<and>
   length (requests (handle_message_step2 example_interp
     (\<lambda>h. Some ''TOOL_CALL: calculator(a=5, b=3, operator=+) TOOL_CALL_END'')
     (new_agent ''sys'' (Some 10)) ''add 5 and 3'')) = 2 \<and>
   requests (handle_message_step2 example_interp
     (\<lambda>h. Some ''TOOL_CALL: calculator(a=5, b=3, operator=+) TOOL_CALL_END'')
     (new_agent ''sys'' (Some 10)) ''TERMINATE'') = []\<close>
proof -
  let ?client = \<open>\<lambda>h :: message list. Some ''TOOL_CALL: calculator(a=5, b=3, operator=+) TOOL_CALL_END''\<close>
  let ?calls = \<open>[\<lparr>call_id = ''call_0'', call_name = ''calculator'',
      arguments = [(''a'', PFloat (Fin 5)), (''b'', PFloat (Fin 3)), (''operator'', PStr ''+'')]\<rparr>]\<close>
  have h1: \<open>\<not> py_contains TERMINATE ''add 5 and 3''\<close>
    by code_simp
  have h2: \<open>\<not> limit_reached (new_agent ''sys'' (Some 10))\<close>
    by code_simp
  have h3: \<open>parse_tool_calls_keyed (first_reply ?client (new_agent ''sys'' (Some 10)) ''add 5 and 3'') =
      Inr ?calls\<close>
    by code_simp
  have h4: \<open>\<not> isl (process_tool_calls example_interp ?calls)\<close>
    by code_simp
  have h5: \<open>py_contains TERMINATE ''TERMINATE''\<close>
    by code_simp
  have \<open>length (requests (handle_message_step2 example_interp ?client
      (new_agent ''sys'' (Some 10)) ''add 5 and 3'')) = 2\<close>
    using completion_requests_per_turn
      [where rt = example_interp and client = ?client and self = \<open>new_agent ''sys'' (Some 10)\<close>
         and user_input = \<open>''add 5 and 3''\<close> and calls = ?calls]
      h1 h2 h3 h4
    by simp
  moreover have \<open>requests (handle_message_step2 example_interp ?client
      (new_agent ''sys'' (Some 10)) ''TERMINATE'') = []\<close>
    using completion_requests_per_turn
      [where rt = example_interp and client = ?client and self = \<open>new_agent ''sys'' (Some 10)\<close>
         and user_input = \<open>''TERMINATE''\<close>]
      h5
    by blast
  ultimately show ?thesis
    using h1 h2 by blast
qed

text \<open>
  C1 as stated fails: the first reply \<^verbatim>\<open>TOOL_CALL: calculator(5, 3) TOOL_CALL_END\<close> holds
  one parsed directive, yet the turn sends one request only, because the dispatch of the
  call raises before the second request.
\<close>

theorem one_request_with_directive:
  \<open>length (parse_tool_calls ''TOOL_CALL: calculator(5, 3) TOOL_CALL_END'') = 1 \<and>
   length (requests (handle_message example_interp
     (\<lambda>h. Some ''TOOL_CALL: calculator(5, 3) TOOL_CALL_END'')
     (new_agent ''sys'' None) ''add 5 and 3'')) = 1\<close>
  by code_simp


subsection \<open>The turn count and the turn limit\<close>

lemma ollama_loop_count: "message_count (snd (ollama_loop rt calls self)) = message_count self"
  by (induction calls arbitrary: self)
     (auto simp: add_message_def split: option.splits sum.splits)

lemma turn_count_step2:
  "message_count (agent_after (handle_message_step2 rt client self user_input)) =
     (if py_contains TERMINATE user_input \<or> limit_reached self then message_count self
      else message_count self + 1)"
  by (simp add: handle_message_step2_def Let_def add_tool_results_count add_message_def
        append_assistant_def split: sum.splits)

lemma turn_count_ollama:
  "message_count (agent_after (handle_message_ollama rt chat self user_input)) =
     (if py_contains TERMINATE user_input \<or> limit_reached self then message_count self
      else message_count self + 1)"
proof -
  have "message_count (snd (ollama_loop rt calls ag)) + 0 = message_count ag" for calls ag
    by (simp add: ollama_loop_count)
  then have c: "ollama_loop rt calls ag = (e, ag') \<Longrightarrow> message_count ag' = message_count ag"
    for calls ag e ag'
    by (metis add.right_neutral snd_conv)
  show ?thesis
    by (auto simp: handle_message_ollama_def Let_def add_message_def append_assistant_def
          split: prod.splits option.splits dest!: c)
qed

lemma nonzero_limit_stops_turn:
  assumes "max_messages self = Some m" "m \<noteq> 0" "m \<le> message_count self"
  shows "handle_message_step2 rt client self user_input =
           \<lparr>outcome = Returned None, agent_after = self, requests = []\<rparr>
         \<and> handle_message_ollama rt chat self user_input =
           \<lparr>outcome = Returned None, agent_after = self, requests = []\<rparr>"
  using assms by (simp add: handle_message_step2_def handle_message_ollama_def limit_reached_def)

text \<open>
  C8 on the code. The count goes up by one in every turn that is not refused, whatever
  the tools do (the two lemmas above), and a limit other than zero refuses every turn once
  the count has reached it. A limit of zero does not: the check
  \<^verbatim>\<open>self.max_messages and self.message_count >= self.max_messages\<close> reads the zero as
  "no limit". With \<^verbatim>\<open>max_messages=0\<close> the count, zero, has reached the limit, yet the
  first turn of the step-2 agent and of the Ollama agent asks the provider and returns
  its reply.
\<close>

theorem zero_limit_does_not_stop:
  \<open>max_messages (new_agent ''sys'' (Some 0)) = Some 0 \<and>
   message_count (new_agent ''sys'' (Some 0)) = 0 \<and>
   outcome (handle_message_step2 example_interp (\<lambda>h. Some ''Hello!'')
              (new_agent ''sys'' (Some 0)) ''Hello'') = Returned (Some ''Hello!'') \<and>
   length (requests (handle_message_step2 example_interp (\<lambda>h. Some ''Hello!'')
              (new_agent ''sys'' (Some 0)) ''Hello'')) = 1 \<and>
   outcome (handle_message_ollama example_interp
              (\<lambda>t h. \<lparr>reply_content = Some ''Hello!'', reply_tool_calls = []\<rparr>)
              (new_agent ''sys'' (Some 0)) ''Hello'') = Returned (Some ''Hello!'') \<and>
   length (requests (handle_message_ollama example_interp
              (\<lambda>t h. \<lparr>reply_content = Some ''Hello!'', reply_tool_calls = []\<rparr>)
              (new_agent ''sys'' (Some 0)) ''Hello'')) = 1\<close>
  by code_simp

subsection \<open>The keyed example and the keyed coercion\<close>

lemma keyed_example:
  \<open>parse_tool_calls_keyed ''TOOL_CALL: calculator(a=5, b=3, operator=+) TOOL_CALL_END'' =
     Inr [\<lparr>call_id = ''call_0'', call_name = ''calculator'',
           arguments = [(''a'', PFloat (Fin 5)), (''b'', PFloat (Fin 3)), (''operator'', PStr ''+'')]\<rparr>]\<close>
  by code_simp

lemma keyed_coercion_examples:
  \<open>coerce_keyed ''TRUE'' = Inr (PBool True)\<close>
  \<open>coerce_keyed ''False'' = Inr (PBool False)\<close>
  \<open>coerce_keyed ''2.5'' = Inr (PFloat (Fin (5 / 2)))\<close>
  \<open>coerce_keyed ''1.2.3'' = Inr (PStr ''1.2.3'')\<close>
  \<open>coerce_keyed ''-5'' = Inr (PStr ''-5'')\<close>
  \<open>coerce_keyed ''+'' = Inr (PStr ''+'')\<close>
  by code_simp+

lemma decimal_or_point_facts:
  assumes "decimal_or_point c"
  shows "to_ascii_space c = c" "\<not> 127 < (of_char c :: nat)" "c \<noteq> CHR ''_''" "\<not> c_isspace c"
    "c \<noteq> CHR ''-''" "c \<noteq> CHR ''+''" "py_lower_char c = c" "c \<noteq> CHR ''t''" "c \<noteq> CHR ''f''"
    "(c \<noteq> CHR ''.'') = py_isdecimal c"
  using assms
  by (auto simp: decimal_or_point_def py_isdecimal_def to_ascii_space_def c_isspace_def
        py_lower_char_def Let_def)

lemma dropWhile_none: "list_all (\<lambda>c. \<not> P c) xs \<Longrightarrow> dropWhile P xs = xs"
  by (cases xs) auto

lemma strip_where_none: "list_all (\<lambda>c. \<not> P c) xs \<Longrightarrow> strip_where P xs = xs"
  by (simp add: strip_where_def dropWhile_none list_all_iff)

lemma parse_decimal_plain:
  assumes d: "list_all decimal_or_point v" and n: "isdigit_str (py_remove1 (CHR ''.'') v)"
  shows "\<exists>r. parse_decimal v = Some r"
proof -
  let ?ip = "takeWhile py_isdecimal v"
  let ?r1 = "dropWhile py_isdecimal v"
  have same: "\<forall>c \<in> set v. (c \<noteq> CHR ''.'') = py_isdecimal c"
    using d decimal_or_point_facts(10) by (auto simp: list_all_iff)
  have t: "takeWhile (\<lambda>c. c \<noteq> CHR ''.'') v = ?ip"
    using same by (intro takeWhile_cong) auto
  have dr: "dropWhile (\<lambda>c. c \<noteq> CHR ''.'') v = ?r1"
    using same by (intro dropWhile_cong) auto
  have r: "py_remove1 (CHR ''.'') v = ?ip @ drop 1 ?r1"
    by (simp add: py_remove1_def t dr)
  show ?thesis
  proof (cases ?r1)
    case Nil
    have "py_remove1 (CHR ''.'') v = ?ip"
      unfolding r Nil by simp
    with n have "?ip \<noteq> []"
      by (auto simp: isdigit_str_def)
    then show ?thesis
      unfolding parse_decimal_def Let_def Nil by (simp add: parse_exponent_def)
  next
    case (Cons c cs)
    then have "\<not> py_isdecimal c"
      using hd_dropWhile [of py_isdecimal v] by auto
    moreover have "c \<in> set v"
      using Cons set_dropWhileD [of c py_isdecimal v] by simp
    ultimately have c: "c = CHR ''.''"
      using same by auto
    have "set cs \<subseteq> set v"
      using Cons set_dropWhileD [of _ py_isdecimal v] by auto
    moreover have "py_remove1 (CHR ''.'') v = ?ip @ cs"
      unfolding r Cons by simp
    with n have "list_all py_isdigit cs"
      by (simp add: isdigit_str_def)
    moreover have "\<not> py_isdigit (CHR ''.'')"
      by (simp add: py_isdigit_def py_isdecimal_def)
    ultimately have "list_all py_isdecimal cs"
      using same unfolding list_all_iff by (metis subsetD)
    then have tk: "takeWhile py_isdecimal cs = cs" and dk: "dropWhile py_isdecimal cs = []"
      by (simp_all add: list_all_iff)
    have "py_remove1 (CHR ''.'') v = ?ip @ cs"
      unfolding r Cons by simp
    with n have "\<not> (?ip = [] \<and> cs = [])"
      by (auto simp: isdigit_str_def)
    then show ?thesis
      unfolding parse_decimal_def Let_def Cons c by (simp add: tk dk parse_exponent_def)
  qed
qed

lemma py_float_plain:
  assumes d: "list_all decimal_or_point v" and n: "isdigit_str (py_remove1 (CHR ''.'') v)"
  shows "\<exists>r. py_float v = Some (Fin r)"
proof -
  obtain r where r: "parse_decimal v = Some r"
    using parse_decimal_plain [OF d n] by blast
  have all: "\<forall>c \<in> set v. decimal_or_point c"
    using d by (simp add: list_all_iff)
  have m: "map to_ascii_space v = v"
    using all decimal_or_point_facts(1) by (intro map_idI) auto
  have a: "\<not> list_ex (\<lambda>c. 127 < (of_char c :: nat)) v"
    using all decimal_or_point_facts(2) by (auto simp: list_ex_iff)
  have u: "CHR ''_'' \<notin> set v"
    using all decimal_or_point_facts(3) by auto
  then have f: "filter (\<lambda>c. c \<noteq> CHR ''_'') v = v"
    by (intro filter_True) auto
  have s: "strip_where c_isspace v = v"
    using all decimal_or_point_facts(4) by (intro strip_where_none) (auto simp: list_all_iff)
  have "v \<noteq> []"
    using n by (auto simp: isdigit_str_def py_remove1_def)
  then obtain c cs where v: "v = c # cs"
    by (cases v) auto
  then have "c \<noteq> CHR ''-''" "c \<noteq> CHR ''+''"
    using all decimal_or_point_facts(5,6) by auto
  then have g: "take_sign v = (False, v)"
    by (simp add: take_sign_def v)
  show ?thesis
    by (simp add: py_float_def m a u f s g r)
qed

lemma keyed_numeric_becomes_number:
  assumes d: "list_all decimal_or_point v" and n: "isdigit_str (py_remove1 (CHR ''.'') v)"
  shows "\<exists>r. coerce_keyed v = Inr (PFloat (Fin r))"
proof -
  obtain r where r: "py_float v = Some (Fin r)"
    using py_float_plain [OF d n] by blast
  have "v \<noteq> []"
    using n by (auto simp: isdigit_str_def py_remove1_def)
  then obtain c cs where v: "v = c # cs"
    by (cases v) auto
  then have "decimal_or_point c"
    using d by simp
  then have "py_lower_char c = c" "c \<noteq> CHR ''t''" "c \<noteq> CHR ''f''"
    by (rule decimal_or_point_facts)+
  then have "py_lower v \<noteq> ''true''" "py_lower v \<noteq> ''false''"
    by (auto simp: py_lower_def v)
  then show ?thesis
    using n r by (simp add: coerce_keyed_def)
qed

lemma keyed_other_stays_string:
  assumes "py_lower v \<noteq> ''true''" "py_lower v \<noteq> ''false''"
    and "\<not> isdigit_str (py_remove1 (CHR ''.'') v)"
  shows "coerce_keyed v = Inr (PStr v)"
  using assms by (simp add: coerce_keyed_def)

lemma keyed_boolean:
  "py_lower v = ''true'' \<Longrightarrow> coerce_keyed v = Inr (PBool True)"
  "py_lower v = ''false'' \<Longrightarrow> coerce_keyed v = Inr (PBool False)"
  by (simp_all add: coerce_keyed_def)

text \<open>
  C4 on the code. The keyed parser gives the example its mapping (lemma
  \<open>keyed_example\<close>); a value of decimal digits with at most one point becomes a
  number, \<^verbatim>\<open>true\<close> and \<^verbatim>\<open>false\<close> in any case become booleans, and a value that fails
  the test for a number stays a string (the lemmas above). The test for a number,
  \<^verbatim>\<open>value.replace('.', '', 1).isdigit()\<close>, also accepts the digits that are no decimal
  digits, such as the superscript two U+00B2, which \<^verbatim>\<open>float\<close> rejects; the
  \<^verbatim>\<open>float(value)\<close> after the test is unguarded. Such a value neither becomes a number
  nor stays a string: the \<^verbatim>\<open>ValueError\<close> leaves the parser and \<^verbatim>\<open>handle_message\<close>.
\<close>

theorem keyed_digit_raises_value_error:
  \<open>isdigit_str (py_remove1 (CHR ''.'') [CHR 0xB2]) \<and> py_float [CHR 0xB2] = None \<and>
   coerce_keyed [CHR 0xB2] = Inl ValueError \<and>
   parse_tool_calls_keyed
     (''TOOL_CALL: calculator(a='' @ [CHR 0xB2] @ '', b=3, operator=+) TOOL_CALL_END'') =
     Inl ValueError \<and>
   outcome (handle_message_step2 example_interp
     (\<lambda>h. Some (''TOOL_CALL: calculator(a='' @ [CHR 0xB2] @ '', b=3, operator=+) TOOL_CALL_END''))
     (new_agent ''sys'' None) ''square it'') = Raised ValueError\<close>
  by code_simp

end
